theory Spec2Isabelle
  imports Main
begin

section \<open>Python values, errors and list access\<close>

text \<open>
  The simulation of \<^verbatim>\<open>cgol/game.py\<close> works on Python integers (unbounded, hence
  \<^typ>\<open>int\<close>) and on a list of lists of integers. Every operation of the source that can
  raise is a function into \<open>py_error + 'a\<close>, with \<open>Inl\<close> the exception.
\<close>

datatype py_error = ZeroDivisionError | IndexError | PygameError

text \<open>
  Python's \<^verbatim>\<open>a % b\<close> and \<^verbatim>\<open>a // b\<close> round towards minus infinity, as \<open>mod\<close> and
  \<open>div\<close> on \<^typ>\<open>int\<close> do; a zero divisor raises.
\<close>

definition py_mod :: "int \<Rightarrow> int \<Rightarrow> py_error + int" where
  "py_mod a b = (if b = 0 then Inl ZeroDivisionError else Inr (a mod b))"

definition py_floordiv :: "int \<Rightarrow> int \<Rightarrow> py_error + int" where
  "py_floordiv a b = (if b = 0 then Inl ZeroDivisionError else Inr (a div b))"

text \<open>
  The position that Python's subscript \<^verbatim>\<open>xs[i]\<close> denotes in a list of \<open>len\<close>
  elements: \<open>i\<close> itself from \<open>0\<close> to \<open>len - 1\<close>, \<open>len + i\<close> for the negative indices
  down to \<open>- len\<close>, and none otherwise (IndexError).
\<close>

definition py_index :: "nat \<Rightarrow> int \<Rightarrow> nat option" where
  "py_index len i =
     (if 0 \<le> i \<and> i < int len then Some (nat i)
      else if - int len \<le> i \<and> i < 0 then Some (nat (int len + i))
      else None)"

text \<open>Reading \<^verbatim>\<open>xs[i]\<close> and storing \<^verbatim>\<open>xs[i] = v\<close>.\<close>

definition py_getitem :: "'a list \<Rightarrow> int \<Rightarrow> py_error + 'a" where
  "py_getitem xs i =
     (case py_index (length xs) i of
        None \<Rightarrow> Inl IndexError
      | Some k \<Rightarrow> Inr (xs ! k))"

definition py_setitem :: "'a list \<Rightarrow> int \<Rightarrow> 'a \<Rightarrow> py_error + 'a list" where
  "py_setitem xs i v =
     (case py_index (length xs) i of
        None \<Rightarrow> Inl IndexError
      | Some k \<Rightarrow> Inr (xs[k := v]))"

text \<open>
  \<^verbatim>\<open>m[row][col] = v\<close> on a list of rows: the row object is looked up, then written at
  \<open>col\<close>. The rows of every grid of the program are distinct objects (they come from
  the nested comprehension of \<^verbatim>\<open>make_clear_grid\<close> and \<^verbatim>\<open>apply_rules\<close>), so the write
  changes that one row of the matrix.
\<close>

definition py_setitem2 :: "'a list list \<Rightarrow> int \<Rightarrow> int \<Rightarrow> 'a \<Rightarrow> py_error + 'a list list" where
  "py_setitem2 m row col v =
     (case py_getitem m row of
        Inl e \<Rightarrow> Inl e
      | Inr r \<Rightarrow>
          (case py_setitem r col v of
             Inl e \<Rightarrow> Inl e
           | Inr r' \<Rightarrow> py_setitem m row r'))"

text \<open>\<^verbatim>\<open>range(n)\<close>: the integers \<open>0, ..., n - 1\<close>, empty when \<open>n \<le> 0\<close>.\<close>

definition py_range :: "int \<Rightarrow> int list" where
  "py_range n = map int [0..<nat n]"

section \<open>The game object\<close>

text \<open>Class constants of \<^verbatim>\<open>GameOfLife\<close>.\<close>

definition TOOLBAR_HEIGHT :: int where
  "TOOLBAR_HEIGHT = 30"

definition DIRECTIONS :: "(int \<times> int) list" where
  "DIRECTIONS = [(-1, -1), (-1, 0), (-1, 1), (0, -1), (0, 1), (1, -1), (1, 0), (1, 1)]"

text \<open>
  The fields of a \<^verbatim>\<open>GameOfLife\<close> object that the simulation reads or writes. The
  window surface, the button rectangles and the font belong to the presentation and
  are left out.
\<close>

record game =
  grid_size :: int
  cell_size :: int
  width :: int
  height :: int
  grid :: "int list list"
  window_alive :: bool
  is_running :: bool

text \<open>
  \<^verbatim>\<open>make_clear_grid\<close>:
  \<^verbatim>\<open>[[0 for _ in range(self.grid_size)] for _ in range(self.grid_size)]\<close>.
\<close>

definition make_clear_grid :: "game \<Rightarrow> int list list" where
  "make_clear_grid g =
     map (\<lambda>_. map (\<lambda>_. 0) (py_range (grid_size g))) (py_range (grid_size g))"

definition initialize_grid :: "game \<Rightarrow> int list list" where
  "initialize_grid g = make_clear_grid g"

text \<open>
  \<^verbatim>\<open>__init__\<close>. The constructor has one call whose outcome depends on its arguments
  and that lives outside the repository, \<^verbatim>\<open>pygame.display.set_mode((width, height))\<close>;
  it is the parameter \<open>set_mode\<close>, which tells whether the window of that size can be
  opened. When it cannot, pygame raises and no object is constructed. The source has no
  check of its own on \<open>grid_size\<close> or \<open>cell_size\<close>. \<^verbatim>\<open>initialize_grid\<close> is called on
  the object under construction \<open>g0\<close>, whose \<open>grid\<close>, \<open>window_alive\<close> and \<open>is_running\<close>
  are assigned only afterwards; it reads \<open>grid_size\<close> alone.
\<close>

definition init :: "(int \<Rightarrow> int \<Rightarrow> bool) \<Rightarrow> int \<Rightarrow> int \<Rightarrow> py_error + game" where
  "init set_mode gs cs =
     (let w = gs * cs;
          h = gs * cs + TOOLBAR_HEIGHT
      in if \<not> set_mode w h then Inl PygameError
         else
           (let g0 = \<lparr>grid_size = gs, cell_size = cs, width = w, height = h,
                      grid = [], window_alive = False, is_running = False\<rparr>
            in Inr (g0\<lparr>grid := initialize_grid g0, window_alive := True,
                       is_running := False\<rparr>)))"

text \<open>A window system that opens exactly the windows of positive width and height.\<close>

definition positive_display :: "int \<Rightarrow> int \<Rightarrow> bool" where
  "positive_display w h = (0 < w \<and> 0 < h)"

subsection \<open>The start, pause and end commands\<close>

definition start_simulation :: "game \<Rightarrow> game" where
  "start_simulation g = g\<lparr>is_running := True\<rparr>"

definition pause_simulation :: "game \<Rightarrow> game" where
  "pause_simulation g = g\<lparr>is_running := False\<rparr>"

definition end_simulation :: "game \<Rightarrow> game" where
  "end_simulation g = (g\<lparr>grid := make_clear_grid g\<rparr>)\<lparr>is_running := False\<rparr>"

subsection \<open>Toggling a cell\<close>

text \<open>
  \<^verbatim>\<open>handle_grid_click(x, y)\<close> maps the pixel to a cell and flips it when the cell is on
  the grid. The right-hand side \<^verbatim>\<open>1 - self.grid[row][col]\<close> is evaluated before the
  store.
\<close>

definition handle_grid_click :: "game \<Rightarrow> int \<Rightarrow> int \<Rightarrow> py_error + game" where
  "handle_grid_click g x y =
     (case py_floordiv (y - TOOLBAR_HEIGHT) (cell_size g) of
        Inl e \<Rightarrow> Inl e
      | Inr row \<Rightarrow>
          (case py_floordiv x (cell_size g) of
             Inl e \<Rightarrow> Inl e
           | Inr col \<Rightarrow>
               if 0 \<le> row \<and> row < grid_size g \<and> 0 \<le> col \<and> col < grid_size g then
                 (case py_getitem (grid g) row of
                    Inl e \<Rightarrow> Inl e
                  | Inr r \<Rightarrow>
                      (case py_getitem r col of
                         Inl e \<Rightarrow> Inl e
                       | Inr v \<Rightarrow>
                           (case py_setitem2 (grid g) row col (1 - v) of
                              Inl e \<Rightarrow> Inl e
                            | Inr m \<Rightarrow> Inr (g\<lparr>grid := m\<rparr>))))
               else Inr g))"

subsection \<open>Neighbour count and the transition rule\<close>

text \<open>
  \<^verbatim>\<open>count_neighbors\<close>: the loop over \<^verbatim>\<open>DIRECTIONS\<close> with the running \<open>count\<close>; each
  step wraps both indices modulo \<open>grid_size\<close> and adds the cell found there.
\<close>

fun count_neighbors_loop :: "game \<Rightarrow> int \<Rightarrow> int \<Rightarrow> (int \<times> int) list \<Rightarrow> int \<Rightarrow> py_error + int" where
  "count_neighbors_loop g row col [] count = Inr count"
| "count_neighbors_loop g row col ((dr, dc) # ds) count =
     (case py_mod (row + dr) (grid_size g) of
        Inl e \<Rightarrow> Inl e
      | Inr r \<Rightarrow>
          (case py_mod (col + dc) (grid_size g) of
             Inl e \<Rightarrow> Inl e
           | Inr c \<Rightarrow>
               (case py_getitem (grid g) r of
                  Inl e \<Rightarrow> Inl e
                | Inr rw \<Rightarrow>
                    (case py_getitem rw c of
                       Inl e \<Rightarrow> Inl e
                     | Inr v \<Rightarrow> count_neighbors_loop g row col ds (count + v)))))"

definition count_neighbors :: "game \<Rightarrow> int \<Rightarrow> int \<Rightarrow> py_error + int" where
  "count_neighbors g row col = count_neighbors_loop g row col DIRECTIONS 0"

text \<open>The three branches of the rule in \<^verbatim>\<open>apply_rules\<close>, for one cell.\<close>

definition next_cell :: "int \<Rightarrow> int \<Rightarrow> int" where
  "next_cell cell neighbors =
     (if cell = 1 \<and> (neighbors < 2 \<or> neighbors > 3) then 0
      else if cell = 0 \<and> neighbors = 3 then 1
      else cell)"

text \<open>
  \<^verbatim>\<open>apply_rules\<close>: the inner loop over the columns of one row and the outer loop over
  the rows. The loop state is the local \<^verbatim>\<open>new_grid\<close>; the game is only read.
\<close>

fun apply_rules_cols :: "game \<Rightarrow> int \<Rightarrow> int list \<Rightarrow> int list list \<Rightarrow> py_error + int list list" where
  "apply_rules_cols g row [] new_grid = Inr new_grid"
| "apply_rules_cols g row (col # cols) new_grid =
     (case count_neighbors g row col of
        Inl e \<Rightarrow> Inl e
      | Inr neighbors \<Rightarrow>
          (case py_getitem (grid g) row of
             Inl e \<Rightarrow> Inl e
           | Inr rw \<Rightarrow>
               (case py_getitem rw col of
                  Inl e \<Rightarrow> Inl e
                | Inr cell \<Rightarrow>
                    (case py_setitem2 new_grid row col (next_cell cell neighbors) of
                       Inl e \<Rightarrow> Inl e
                     | Inr new_grid' \<Rightarrow> apply_rules_cols g row cols new_grid'))))"

fun apply_rules_rows :: "game \<Rightarrow> int list \<Rightarrow> int list list \<Rightarrow> py_error + int list list" where
  "apply_rules_rows g [] new_grid = Inr new_grid"
| "apply_rules_rows g (row # rows) new_grid =
     (case apply_rules_cols g row (py_range (grid_size g)) new_grid of
        Inl e \<Rightarrow> Inl e
      | Inr new_grid' \<Rightarrow> apply_rules_rows g rows new_grid')"

definition apply_rules :: "game \<Rightarrow> py_error + int list list" where
  "apply_rules g =
     apply_rules_rows g (py_range (grid_size g))
       (map (\<lambda>_. map (\<lambda>_. 0) (py_range (grid_size g))) (py_range (grid_size g)))"

definition update_grid :: "game \<Rightarrow> py_error + game" where
  "update_grid g =
     (case apply_rules g of
        Inl e \<Rightarrow> Inl e
      | Inr new_grid \<Rightarrow> Inr (g\<lparr>grid := new_grid\<rparr>))"

text \<open>
  The simulation step of one frame of \<^verbatim>\<open>run\<close>:
  \<^verbatim>\<open>if self.is_running: self.update_grid()\<close>.
\<close>

definition run_tick :: "game \<Rightarrow> py_error + game" where
  "run_tick g = (if is_running g then update_grid g else Inr g)"

section \<open>The grid invariant\<close>

text \<open>
  A grid is square of side \<open>n\<close> when it has \<open>n\<close> rows of \<open>n\<close> cells; it is binary
  when every cell is \<open>0\<close> (DEAD) or \<open>1\<close> (ALIVE).
\<close>

definition square :: "nat \<Rightarrow> int list list \<Rightarrow> bool" where
  "square n m = (length m = n \<and> (\<forall>r \<in> set m. length r = n))"

definition binary :: "int list list \<Rightarrow> bool" where
  "binary m = (\<forall>r \<in> set m. \<forall>v \<in> set r. v = 0 \<or> v = 1)"

definition grid_inv :: "game \<Rightarrow> bool" where
  "grid_inv g = (square (nat (grid_size g)) (grid g) \<and> binary (grid g))"

section \<open>Closed forms of the loops\<close>

text \<open>
  The cell of the torus at any pair of integers, the sum that the loop of
  \<^verbatim>\<open>count_neighbors\<close> computes, and the value that \<^verbatim>\<open>apply_rules\<close> stores at a cell.
  The lemmas below show that the loops of the source compute exactly these.
\<close>

definition torus_cell :: "game \<Rightarrow> int \<Rightarrow> int \<Rightarrow> int" where
  "torus_cell g r c = grid g ! nat (r mod grid_size g) ! nat (c mod grid_size g)"

definition neighbor_sum :: "game \<Rightarrow> int \<Rightarrow> int \<Rightarrow> int" where
  "neighbor_sum g row col =
     sum_list (map (\<lambda>(dr, dc). torus_cell g (row + dr) (col + dc)) DIRECTIONS)"

definition new_cell :: "game \<Rightarrow> nat \<Rightarrow> nat \<Rightarrow> int" where
  "new_cell g i j = next_cell (grid g ! i ! j) (neighbor_sum g (int i) (int j))"

text \<open>A small game used to instantiate the theorems: a column of three live cells.\<close>

definition column3 :: game where
  "column3 = \<lparr>grid_size = 3, cell_size = 30, width = 90, height = 120,
               grid = [[0, 1, 0], [0, 1, 0], [0, 1, 0]],
               window_alive = True, is_running = True\<rparr>"

text \<open>The value \<open>1\<close> or \<open>0\<close> of a condition, as the grid stores a live or a dead cell.\<close>

definition ind :: "bool \<Rightarrow> int" where
  "ind b = (if b then 1 else 0)"

section \<open>Patterns\<close>

text \<open>
  The grid of side \<open>n\<close> whose live cells are those \<open>(i, j)\<close> that satisfy a condition,
  and the two phases of the blinker around the cell \<open>(r, c)\<close>: the horizontal line
  \<open>(r, c - 1), (r, c), (r, c + 1)\<close> and the vertical line \<open>(r - 1, c), (r, c), (r + 1, c)\<close>.
\<close>

definition pattern :: "int \<Rightarrow> (int \<Rightarrow> int \<Rightarrow> bool) \<Rightarrow> int list list" where
  "pattern n alive =
     map (\<lambda>i. map (\<lambda>j. if alive i j then 1 else 0) (py_range n)) (py_range n)"

definition blinker_h :: "int \<Rightarrow> int \<Rightarrow> int \<Rightarrow> int list list" where
  "blinker_h n r c = pattern n (\<lambda>i j. i = r \<and> (j = c - 1 \<or> j = c \<or> j = c + 1))"

definition blinker_v :: "int \<Rightarrow> int \<Rightarrow> int \<Rightarrow> int list list" where
  "blinker_v n r c = pattern n (\<lambda>i j. j = c \<and> (i = r - 1 \<or> i = r \<or> i = r + 1))"

text \<open>A game of side 5 with the horizontal blinker in the middle.\<close>

definition blinker5 :: game where
  "blinker5 = \<lparr>grid_size = 5, cell_size = 30, width = 150, height = 180,
                grid = [[0, 0, 0, 0, 0], [0, 0, 0, 0, 0], [0, 1, 1, 1, 0],
                        [0, 0, 0, 0, 0], [0, 0, 0, 0, 0]],
                window_alive = True, is_running = True\<rparr>"

section \<open>Row objects\<close>

text \<open>
  In Python a grid is a list of references to row objects, and \<^verbatim>\<open>m[row][col] = v\<close>
  writes into the row object in place, visible through every reference to it. To state
  which objects \<^verbatim>\<open>apply_rules\<close> writes, this section gives it a second time with the row
  objects in a store: a list of rows indexed by address, where a grid is the list of the
  addresses of its rows.
\<close>

type_synonym store = "int list list"

text \<open>The matrix that a list of row references denotes in a store.\<close>

definition rows_at :: "store \<Rightarrow> nat list \<Rightarrow> int list list" where
  "rows_at s refs = map (\<lambda>a. s ! a) refs"

text \<open>
  The game object as the code reads it when \<^verbatim>\<open>self.grid\<close> holds the references
  \<open>self_rows\<close>: its grid is what these denote in the store at that moment.
\<close>

definition self_at :: "game \<Rightarrow> store \<Rightarrow> nat list \<Rightarrow> game" where
  "self_at g s self_rows = g\<lparr>grid := rows_at s self_rows\<rparr>"

text \<open>
  Creating row objects: they are new, so they get the addresses after those of all
  existing objects.
\<close>

definition alloc_rows :: "store \<Rightarrow> int list list \<Rightarrow> nat list \<times> store" where
  "alloc_rows s rs = ([length s..<length s + length rs], s @ rs)"

text \<open>
  The loops of \<^verbatim>\<open>apply_rules\<close> over the store. \<open>new_grid\<close> is the list of references that
  the local variable holds. Every read of \<^verbatim>\<open>self.grid\<close>, in \<^verbatim>\<open>count_neighbors\<close> and in
  \<^verbatim>\<open>cell = self.grid[row][col]\<close>, goes through the store as the writes so far have left
  it; \<^verbatim>\<open>new_grid[row][col] = ...\<close> looks up the reference \<^verbatim>\<open>new_grid[row]\<close> and writes into
  the object at that address.
\<close>

fun apply_rules_cols_obj ::
  "game \<Rightarrow> nat list \<Rightarrow> nat list \<Rightarrow> int \<Rightarrow> int list \<Rightarrow> store \<Rightarrow> py_error + store" where
  "apply_rules_cols_obj g self_rows new_grid row [] s = Inr s"
| "apply_rules_cols_obj g self_rows new_grid row (col # cols) s =
     (case count_neighbors (self_at g s self_rows) row col of
        Inl e \<Rightarrow> Inl e
      | Inr neighbors \<Rightarrow>
          (case py_getitem (grid (self_at g s self_rows)) row of
             Inl e \<Rightarrow> Inl e
           | Inr rw \<Rightarrow>
               (case py_getitem rw col of
                  Inl e \<Rightarrow> Inl e
                | Inr cell \<Rightarrow>
                    (case py_getitem new_grid row of
                       Inl e \<Rightarrow> Inl e
                     | Inr a \<Rightarrow>
                         (case py_setitem (s ! a) col (next_cell cell neighbors) of
                            Inl e \<Rightarrow> Inl e
                          | Inr rw' \<Rightarrow>
                              apply_rules_cols_obj g self_rows new_grid row cols (s[a := rw']))))))"

fun apply_rules_rows_obj ::
  "game \<Rightarrow> nat list \<Rightarrow> nat list \<Rightarrow> int list \<Rightarrow> store \<Rightarrow> py_error + store" where
  "apply_rules_rows_obj g self_rows new_grid [] s = Inr s"
| "apply_rules_rows_obj g self_rows new_grid (row # rows) s =
     (case apply_rules_cols_obj g self_rows new_grid row (py_range (grid_size g)) s of
        Inl e \<Rightarrow> Inl e
      | Inr s' \<Rightarrow> apply_rules_rows_obj g self_rows new_grid rows s')"

text \<open>
  \<^verbatim>\<open>apply_rules\<close>: the nested comprehension creates the rows of \<^verbatim>\<open>new_grid\<close>, the loops
  fill them, and the references are returned together with the store.
\<close>

definition apply_rules_obj :: "game \<Rightarrow> nat list \<Rightarrow> store \<Rightarrow> py_error + (nat list \<times> store)" where
  "apply_rules_obj g self_rows s =
     (case alloc_rows s (map (\<lambda>_. map (\<lambda>_. 0) (py_range (grid_size g))) (py_range (grid_size g))) of
        (new_grid, s0) \<Rightarrow>
          (case apply_rules_rows_obj g self_rows new_grid (py_range (grid_size g)) s0 of
             Inl e \<Rightarrow> Inl e
           | Inr s' \<Rightarrow> Inr (new_grid, s')))"

text \<open>
  The references \<open>refs\<close> point to objects of the store \<open>s\<close> and denote the matrix \<open>m\<close>
  there.
\<close>

definition denotes :: "store \<Rightarrow> nat list \<Rightarrow> int list list \<Rightarrow> bool" where
  "denotes s refs m = ((\<forall>a\<in>set refs. a < length s) \<and> rows_at s refs = m)"

section \<open>List access inside the grid\<close>

lemma py_getitem_nat:
  "0 \<le> i \<Longrightarrow> i < int (length xs) \<Longrightarrow> py_getitem xs i = Inr (xs ! nat i)"
  by (simp add: py_getitem_def py_index_def)

lemma py_setitem_nat:
  "0 \<le> i \<Longrightarrow> i < int (length xs) \<Longrightarrow> py_setitem xs i v = Inr (xs[nat i := v])"
  by (simp add: py_setitem_def py_index_def)

lemma py_setitem2_nat:
  "0 \<le> row \<Longrightarrow> row < int (length m) \<Longrightarrow> 0 \<le> col \<Longrightarrow> col < int (length (m ! nat row)) \<Longrightarrow>
   py_setitem2 m row col v = Inr (m[nat row := (m ! nat row)[nat col := v]])"
  by (simp add: py_setitem2_def py_getitem_nat py_setitem_nat)

lemma square_nth:
  "square n m \<Longrightarrow> i < n \<Longrightarrow> length (m ! i) = n"
  by (simp add: square_def)

lemma square_length:
  "square n m \<Longrightarrow> length m = n"
  by (simp add: square_def)

lemma square_update:
  assumes "square n m" "i < n"
  shows "square n (m[i := (m ! i)[j := v]])"
proof -
  have "length r = n" if "r \<in> set (m[i := (m ! i)[j := v]])" for r
  proof -
    from that have "r = (m ! i)[j := v] \<or> r \<in> set m"
      using set_update_subset_insert[of m i "(m ! i)[j := v]"] by auto
    then show ?thesis using assms by (auto simp: square_def)
  qed
  then show ?thesis using assms by (simp add: square_def)
qed

lemma set_py_range: "set (py_range n) = {0..<n}"
proof (intro set_eqI iffI)
  fix x assume "x \<in> set (py_range n)"
  then show "x \<in> {0..<n}" by (auto simp: py_range_def)
next
  fix x assume "x \<in> {0..<n}"
  then have "nat x < nat n" "int (nat x) = x" by auto
  then show "x \<in> set (py_range n)"
    unfolding py_range_def by (metis atLeastLessThan_iff imageI le0 set_map set_upt)
qed

lemma length_py_range: "length (py_range n) = nat n"
  by (simp add: py_range_def)

section \<open>The neighbour count\<close>

lemma torus_lookup:
  assumes sq: "square (nat (grid_size g)) (grid g)" and pos: "0 < grid_size g"
  shows "py_getitem (grid g) (r mod grid_size g) = Inr (grid g ! nat (r mod grid_size g))"
    and "py_getitem (grid g ! nat (r mod grid_size g)) (c mod grid_size g) = Inr (torus_cell g r c)"
proof -
  let ?n = "grid_size g"
  have r: "0 \<le> r mod ?n" "r mod ?n < ?n" and c: "0 \<le> c mod ?n" "c mod ?n < ?n"
    using pos by simp_all
  have len: "int (length (grid g)) = ?n"
    using sq pos by (simp add: square_def)
  have "nat (r mod ?n) < nat ?n" using r pos by simp
  then have rowlen: "int (length (grid g ! nat (r mod ?n))) = ?n"
    using square_nth[OF sq] pos by simp
  show "py_getitem (grid g) (r mod ?n) = Inr (grid g ! nat (r mod ?n))"
    using r len by (simp add: py_getitem_nat)
  show "py_getitem (grid g ! nat (r mod ?n)) (c mod ?n) = Inr (torus_cell g r c)"
    using c rowlen by (simp add: py_getitem_nat torus_cell_def)
qed

lemma count_neighbors_loop_sum:
  assumes sq: "square (nat (grid_size g)) (grid g)" and pos: "0 < grid_size g"
  shows "count_neighbors_loop g row col ds count =
         Inr (count + sum_list (map (\<lambda>(dr, dc). torus_cell g (row + dr) (col + dc)) ds))"
proof (induction ds arbitrary: count)
  case Nil
  show ?case by simp
next
  case (Cons d ds)
  obtain dr dc where d: "d = (dr, dc)" by (cases d)
  have nz: "grid_size g \<noteq> 0" using pos by simp
  show ?case
    by (simp add: d py_mod_def nz torus_lookup[OF sq pos] Cons.IH)
qed

lemma count_neighbors_sum:
  "square (nat (grid_size g)) (grid g) \<Longrightarrow> 0 < grid_size g \<Longrightarrow>
   count_neighbors g row col = Inr (neighbor_sum g row col)"
  by (simp add: count_neighbors_def neighbor_sum_def count_neighbors_loop_sum)

section \<open>The loops of the transition\<close>

lemma nth_update2:
  assumes "square n m" "i < n" "j < n" "a < n" "b < n"
  shows "m[a := (m ! a)[b := v]] ! i ! j = (if i = a \<and> j = b then v else m ! i ! j)"
proof (cases "i = a")
  case True
  then show ?thesis
    using assms by (simp add: square_def nth_list_update)
next
  case False
  then show ?thesis
    using assms by (simp add: square_def)
qed

lemma apply_rules_cols_nth:
  assumes sq: "square (nat (grid_size g)) (grid g)" and pos: "0 < grid_size g"
    and row: "0 \<le> row" "row < grid_size g"
  shows "set cs \<subseteq> {0..<grid_size g} \<Longrightarrow> square (nat (grid_size g)) ng \<Longrightarrow>
         \<exists>ng'. apply_rules_cols g row cs ng = Inr ng' \<and> square (nat (grid_size g)) ng' \<and>
           (\<forall>i<nat (grid_size g). \<forall>j<nat (grid_size g).
              ng' ! i ! j = (if i = nat row \<and> int j \<in> set cs then new_cell g i j else ng ! i ! j))"
proof (induction cs arbitrary: ng)
  case Nil
  then show ?case by simp
next
  case (Cons col cs)
  let ?n = "nat (grid_size g)"
  let ?v = "new_cell g (nat row) (nat col)"
  let ?ng1 = "ng[nat row := (ng ! nat row)[nat col := ?v]]"
  from Cons.prems have col: "0 \<le> col" "col < grid_size g" and cs: "set cs \<subseteq> {0..<grid_size g}"
    by auto
  have rn: "nat row < ?n" and cn: "nat col < ?n"
    using row col by simp_all
  have g_row: "py_getitem (grid g) row = Inr (grid g ! nat row)"
    using sq row by (simp add: py_getitem_nat square_def)
  have g_cell: "py_getitem (grid g ! nat row) col = Inr (grid g ! nat row ! nat col)"
    using square_nth[OF sq rn] col by (simp add: py_getitem_nat)
  have set2: "py_setitem2 ng row col ?v = Inr ?ng1"
    using square_length[OF Cons.prems(2)] square_nth[OF Cons.prems(2) rn] row col
    by (simp add: py_setitem2_nat)
  have sq1: "square ?n ?ng1"
    using Cons.prems(2) rn by (rule square_update)
  from Cons.IH[OF cs sq1] obtain ng' where
    run: "apply_rules_cols g row cs ?ng1 = Inr ng'" and sq': "square ?n ng'"
    and nth: "\<forall>i<?n. \<forall>j<?n.
        ng' ! i ! j = (if i = nat row \<and> int j \<in> set cs then new_cell g i j else ?ng1 ! i ! j)"
    by blast
  have v: "next_cell (grid g ! nat row ! nat col) (neighbor_sum g row col) = ?v"
    using row col by (simp add: new_cell_def)
  have step: "apply_rules_cols g row (col # cs) ng = Inr ng'"
    by (simp add: count_neighbors_sum[OF sq pos] g_row g_cell v set2 run)
  have "ng' ! i ! j = (if i = nat row \<and> int j \<in> set (col # cs) then new_cell g i j else ng ! i ! j)"
    if ij: "i < ?n" "j < ?n" for i j
  proof -
    have upd: "?ng1 ! i ! j = (if i = nat row \<and> j = nat col then ?v else ng ! i ! j)"
      using nth_update2[OF Cons.prems(2) ij rn cn] .
    have eqj: "(j = nat col) = (int j = col)" using col by auto
    show ?thesis
      using nth ij upd eqj by auto
  qed
  with step sq' show ?case by blast
qed

lemma apply_rules_rows_nth:
  assumes sq: "square (nat (grid_size g)) (grid g)" and pos: "0 < grid_size g"
  shows "set rs \<subseteq> {0..<grid_size g} \<Longrightarrow> square (nat (grid_size g)) ng \<Longrightarrow>
         \<exists>ng'. apply_rules_rows g rs ng = Inr ng' \<and> square (nat (grid_size g)) ng' \<and>
           (\<forall>i<nat (grid_size g). \<forall>j<nat (grid_size g).
              ng' ! i ! j = (if int i \<in> set rs then new_cell g i j else ng ! i ! j))"
proof (induction rs arbitrary: ng)
  case Nil
  then show ?case by simp
next
  case (Cons row rs)
  let ?n = "nat (grid_size g)"
  from Cons.prems have row: "0 \<le> row" "row < grid_size g" and rs: "set rs \<subseteq> {0..<grid_size g}"
    by auto
  have all: "set (py_range (grid_size g)) \<subseteq> {0..<grid_size g}"
    by (simp add: set_py_range)
  from apply_rules_cols_nth[OF sq pos row all Cons.prems(2)] obtain ng1 where
    cols: "apply_rules_cols g row (py_range (grid_size g)) ng = Inr ng1" and sq1: "square ?n ng1"
    and nth1: "\<forall>i<?n. \<forall>j<?n.
        ng1 ! i ! j = (if i = nat row \<and> int j \<in> set (py_range (grid_size g))
                       then new_cell g i j else ng ! i ! j)"
    by blast
  from Cons.IH[OF rs sq1] obtain ng' where
    run: "apply_rules_rows g rs ng1 = Inr ng'" and sq': "square ?n ng'"
    and nth: "\<forall>i<?n. \<forall>j<?n.
        ng' ! i ! j = (if int i \<in> set rs then new_cell g i j else ng1 ! i ! j)"
    by blast
  have step: "apply_rules_rows g (row # rs) ng = Inr ng'"
    by (simp add: cols run)
  have "ng' ! i ! j = (if int i \<in> set (row # rs) then new_cell g i j else ng ! i ! j)"
    if ij: "i < ?n" "j < ?n" for i j
  proof -
    have inj: "int j \<in> set (py_range (grid_size g))"
      using ij by (simp add: set_py_range)
    have eqi: "(i = nat row) = (int i = row)" using row by auto
    show ?thesis
      using nth nth1 ij inj eqi by auto
  qed
  with step sq' show ?case by blast
qed

lemma square_clear:
  "square (nat n) (map (\<lambda>_. map (\<lambda>_. 0) (py_range n)) (py_range n))"
  by (simp add: square_def length_py_range)

lemma apply_rules_nth:
  assumes sq: "square (nat (grid_size g)) (grid g)" and pos: "0 < grid_size g"
  shows "\<exists>ng'. apply_rules g = Inr ng' \<and> square (nat (grid_size g)) ng' \<and>
           (\<forall>i<nat (grid_size g). \<forall>j<nat (grid_size g). ng' ! i ! j = new_cell g i j)"
proof -
  let ?n = "nat (grid_size g)"
  have all: "set (py_range (grid_size g)) \<subseteq> {0..<grid_size g}"
    by (simp add: set_py_range)
  from apply_rules_rows_nth[OF sq pos all square_clear] obtain ng' where
    run: "apply_rules g = Inr ng'" and sq': "square ?n ng'"
    and nth: "\<forall>i<?n. \<forall>j<?n. ng' ! i ! j =
        (if int i \<in> set (py_range (grid_size g)) then new_cell g i j
         else map (\<lambda>_. map (\<lambda>_. 0) (py_range (grid_size g))) (py_range (grid_size g)) ! i ! j)"
    unfolding apply_rules_def by blast
  have "ng' ! i ! j = new_cell g i j" if "i < ?n" "j < ?n" for i j
  proof -
    have "int i \<in> set (py_range (grid_size g))"
      using that by (simp add: set_py_range)
    with nth that show ?thesis by simp
  qed
  with run sq' show ?thesis by blast
qed

lemma apply_rules_empty:
  "grid_size g \<le> 0 \<Longrightarrow> apply_rules g = Inr []"
  by (simp add: apply_rules_def py_range_def)

section \<open>Counting live neighbours\<close>

lemma torus_cell_binary:
  assumes sq: "square (nat (grid_size g)) (grid g)" and bin: "binary (grid g)"
    and pos: "0 < grid_size g"
  shows "torus_cell g r c = 0 \<or> torus_cell g r c = 1"
proof -
  let ?n = "grid_size g"
  have r: "nat (r mod ?n) < nat ?n" and c: "nat (c mod ?n) < nat ?n"
    using pos by simp_all
  have "grid g ! nat (r mod ?n) \<in> set (grid g)"
    using r square_length[OF sq] by simp
  moreover have "torus_cell g r c \<in> set (grid g ! nat (r mod ?n))"
    using c square_nth[OF sq r] by (simp add: torus_cell_def)
  ultimately show ?thesis
    using bin by (auto simp: binary_def)
qed

lemma sum_list_indicator:
  "(\<And>x. x \<in> set xs \<Longrightarrow> f x = (0::int) \<or> f x = 1) \<Longrightarrow>
   sum_list (map f xs) = int (length (filter (\<lambda>x. f x = 1) xs))"
  by (induction xs) auto

lemma set_DIRECTIONS:
  "set DIRECTIONS = {(-1, -1), (-1, 0), (-1, 1), (0, -1), (0, 1), (1, -1), (1, 0), (1, 1)}"
  by (simp add: DIRECTIONS_def)

lemma distinct_DIRECTIONS: "distinct DIRECTIONS"
  by (simp add: DIRECTIONS_def)

lemma length_DIRECTIONS: "length DIRECTIONS = 8"
  by (simp add: DIRECTIONS_def)

lemma neighbor_sum_card:
  assumes sq: "square (nat (grid_size g)) (grid g)" and bin: "binary (grid g)"
    and pos: "0 < grid_size g"
  shows "neighbor_sum g row col =
         int (card {d \<in> set DIRECTIONS. torus_cell g (row + fst d) (col + snd d) = 1})"
    and "0 \<le> neighbor_sum g row col" and "neighbor_sum g row col \<le> 8"
proof -
  let ?f = "\<lambda>d. torus_cell g (row + fst d) (col + snd d)"
  have sum: "neighbor_sum g row col = sum_list (map ?f DIRECTIONS)"
    by (simp add: neighbor_sum_def case_prod_unfold)
  have ind: "sum_list (map ?f DIRECTIONS) = int (length (filter (\<lambda>d. ?f d = 1) DIRECTIONS))"
    by (rule sum_list_indicator) (rule torus_cell_binary[OF sq bin pos])
  have "length (filter (\<lambda>d. ?f d = 1) DIRECTIONS) = card ({d. ?f d = 1} \<inter> set DIRECTIONS)"
    using distinct_DIRECTIONS by (rule distinct_length_filter)
  also have "{d. ?f d = 1} \<inter> set DIRECTIONS = {d \<in> set DIRECTIONS. ?f d = 1}"
    by auto
  finally show "neighbor_sum g row col = int (card {d \<in> set DIRECTIONS. ?f d = 1})"
    using sum ind by simp
  show "0 \<le> neighbor_sum g row col"
    using sum ind by simp
  have "length (filter (\<lambda>d. ?f d = 1) DIRECTIONS) \<le> length DIRECTIONS"
    by (rule length_filter_le)
  then show "neighbor_sum g row col \<le> 8"
    using sum ind length_DIRECTIONS by simp
qed

lemma torus_cell_mod:
  "torus_cell g (r mod grid_size g + dr) (c mod grid_size g + dc) = torus_cell g (r + dr) (c + dc)"
  by (simp add: torus_cell_def mod_add_left_eq)

lemma neighbor_sum_mod:
  "neighbor_sum g (row mod grid_size g) (col mod grid_size g) = neighbor_sum g row col"
  by (simp add: neighbor_sum_def torus_cell_mod)

lemma grid_inv_column3: "grid_inv column3"
  by (simp add: grid_inv_def square_def binary_def column3_def)

text \<open>
  C2. On a game whose grid is \<open>grid_size \<times> grid_size\<close> with cells \<open>0\<close> or \<open>1\<close> and
  \<open>grid_size \<ge> 1\<close>, \<^verbatim>\<open>count_neighbors(row, col)\<close> at a cell of the grid returns a number
  between 0 and 8: the number of the eight offset pairs \<open>(dr, dc)\<close> of the Moore
  neighbourhood for which the cell at row \<open>(row + dr) mod grid_size\<close> and column
  \<open>(col + dc) mod grid_size\<close> is alive. Offsets are counted, so on a grid of side 1 or 2,
  where several offsets wrap to the same cell, that cell counts once for each.
\<close>

theorem count_neighbors_moore:
  assumes "1 \<le> grid_size g" and "grid_inv g"
    and "0 \<le> row" "row < grid_size g" "0 \<le> col" "col < grid_size g"
  shows "\<exists>k. count_neighbors g row col = Inr k \<and> 0 \<le> k \<and> k \<le> 8 \<and>
           k = int (card {d \<in> {(-1, -1), (-1, 0), (-1, 1), (0, -1), (0, 1), (1, -1), (1, 0), (1, 1)}.
                 grid g ! nat ((row + fst d) mod grid_size g)
                        ! nat ((col + snd d) mod grid_size g) = 1})"
proof -
  from assms have sq: "square (nat (grid_size g)) (grid g)" and bin: "binary (grid g)"
    and pos: "0 < grid_size g"
    by (simp_all add: grid_inv_def)
  show ?thesis
    using count_neighbors_sum[OF sq pos, of row col] neighbor_sum_card[OF sq bin pos, of row col]
    by (simp add: set_DIRECTIONS torus_cell_def)
qed

theorem count_neighbors_moore_witness:
  "1 \<le> grid_size column3 \<and> grid_inv column3 \<and> (0::int) \<le> 0 \<and> 0 < grid_size column3 \<and>
   (\<exists>k. count_neighbors column3 0 0 = Inr k \<and> 0 \<le> k \<and> k \<le> 8 \<and>
      k = int (card {d \<in> {(-1, -1), (-1, 0), (-1, 1), (0, -1), (0, 1), (1, -1), (1, 0), (1, 1)}.
            grid column3 ! nat ((0 + fst d) mod grid_size column3)
                         ! nat ((0 + snd d) mod grid_size column3) = 1}))"
proof -
  have size: "1 \<le> grid_size column3" "0 < grid_size column3"
    by (simp_all add: column3_def)
  have zero: "(0::int) \<le> 0" by simp
  from count_neighbors_moore[OF size(1) grid_inv_column3 zero size(2) zero size(2)]
  show ?thesis
    using size grid_inv_column3 by blast
qed

text \<open>
  C9. On a square grid of side \<open>grid_size \<ge> 1\<close>, \<^verbatim>\<open>count_neighbors\<close> returns a number
  for all integers \<open>row\<close> and \<open>col\<close>, inside the grid or not, and it returns the same
  as at \<open>row mod grid_size\<close> and \<open>col mod grid_size\<close>.
\<close>

theorem count_neighbors_periodic:
  assumes "1 \<le> grid_size g" and "square (nat (grid_size g)) (grid g)"
  shows "(\<exists>k. count_neighbors g row col = Inr k) \<and>
         count_neighbors g row col = count_neighbors g (row mod grid_size g) (col mod grid_size g)"
proof -
  from assms have pos: "0 < grid_size g" by simp
  show ?thesis
    by (simp add: count_neighbors_sum[OF assms(2) pos] neighbor_sum_mod)
qed

theorem count_neighbors_periodic_witness:
  "1 \<le> grid_size column3 \<and> square (nat (grid_size column3)) (grid column3) \<and>
   (\<exists>k. count_neighbors column3 (-4) 7 = Inr k) \<and>
   count_neighbors column3 (-4) 7 =
     count_neighbors column3 (-4 mod grid_size column3) (7 mod grid_size column3)"
proof -
  have size: "1 \<le> grid_size column3"
    by (simp add: column3_def)
  have sq: "square (nat (grid_size column3)) (grid column3)"
    using grid_inv_column3 by (simp add: grid_inv_def)
  from count_neighbors_periodic[OF size sq, of "-4" 7]
  show ?thesis
    using size sq by blast
qed

section \<open>The transition\<close>

lemma next_cell_binary:
  "cell = 0 \<or> cell = 1 \<Longrightarrow> next_cell cell k = 0 \<or> next_cell cell k = 1"
  by (auto simp: next_cell_def)

lemma grid_cell_binary:
  assumes "square n m" "binary m" "i < n" "j < n"
  shows "m ! i ! j = 0 \<or> m ! i ! j = 1"
proof -
  have "m ! i \<in> set m" using assms by (simp add: square_def)
  moreover have "m ! i ! j \<in> set (m ! i)" using assms by (simp add: square_def)
  ultimately show ?thesis using assms(2) by (auto simp: binary_def)
qed

lemma binaryI:
  assumes sq: "square n m" and cells: "\<And>i j. i < n \<Longrightarrow> j < n \<Longrightarrow> m ! i ! j = 0 \<or> m ! i ! j = 1"
  shows "binary m"
  unfolding binary_def
proof (intro ballI)
  fix r v assume r: "r \<in> set m" and v: "v \<in> set r"
  from r obtain i where i: "i < length m" "r = m ! i" by (auto simp: in_set_conv_nth)
  from v obtain j where j: "j < length r" "v = r ! j" by (auto simp: in_set_conv_nth)
  have "i < n" using i sq by (simp add: square_def)
  moreover have "j < n" using j r sq by (simp add: square_def)
  ultimately show "v = 0 \<or> v = 1" using cells i j by simp
qed

lemma new_cell_binary:
  assumes "square (nat (grid_size g)) (grid g)" "binary (grid g)"
    and "i < nat (grid_size g)" "j < nat (grid_size g)"
  shows "new_cell g i j = 0 \<or> new_cell g i j = 1"
  unfolding new_cell_def
  using grid_cell_binary[OF assms] by (rule next_cell_binary)

lemma apply_rules_inv:
  assumes inv: "grid_inv g"
  shows "\<exists>ng. apply_rules g = Inr ng \<and> square (nat (grid_size g)) ng \<and> binary ng"
proof (cases "0 < grid_size g")
  case True
  from inv have sq: "square (nat (grid_size g)) (grid g)" and bin: "binary (grid g)"
    by (simp_all add: grid_inv_def)
  from apply_rules_nth[OF sq True] obtain ng where
    run: "apply_rules g = Inr ng" and sq': "square (nat (grid_size g)) ng"
    and nth: "\<forall>i<nat (grid_size g). \<forall>j<nat (grid_size g). ng ! i ! j = new_cell g i j"
    by blast
  have "binary ng"
    using sq' nth new_cell_binary[OF sq bin] by (intro binaryI[OF sq']) simp
  with run sq' show ?thesis by blast
next
  case False
  then have "apply_rules g = Inr []" by (simp add: apply_rules_empty)
  moreover have "square (nat (grid_size g)) []" "binary []"
    using False by (simp_all add: square_def binary_def)
  ultimately show ?thesis by blast
qed

subsection \<open>The transition on row objects\<close>

lemma rows_at_append:
  "\<forall>a\<in>set refs. a < length s \<Longrightarrow> rows_at (s @ t) refs = rows_at s refs"
  by (simp add: rows_at_def nth_append)

lemma rows_at_fresh:
  "rows_at (s @ t) [length s..<length s + length t] = t"
  by (rule nth_equalityI) (simp_all add: rows_at_def nth_append)

lemma py_setitem2_length:
  "py_setitem2 m row col v = Inr m' \<Longrightarrow> length m' = length m"
  by (auto simp: py_setitem2_def py_getitem_def py_setitem_def split: option.splits sum.splits)

lemma store_write:
  "(case py_getitem [length s..<length s + length ng] row of
      Inl e \<Rightarrow> Inl e
    | Inr a \<Rightarrow>
        (case py_setitem ((s @ ng) ! a) col v of
           Inl e \<Rightarrow> Inl e
         | Inr rw' \<Rightarrow> F ((s @ ng)[a := rw']))) =
   (case py_setitem2 ng row col v of
      Inl e \<Rightarrow> Inl e
    | Inr ng' \<Rightarrow> F (s @ ng'))"
proof (cases "py_index (length ng) row")
  case None
  then show ?thesis
    by (simp add: py_getitem_def py_setitem2_def)
next
  case (Some k)
  then have k: "k < length ng"
    by (auto simp: py_index_def split: if_splits)
  show ?thesis
  proof (cases "py_setitem (ng ! k) col v")
    case (Inl e)
    with Some k show ?thesis
      by (simp add: py_getitem_def py_setitem2_def nth_append)
  next
    case (Inr rw')
    with Some k show ?thesis
      by (simp add: py_getitem_def py_setitem2_def nth_append list_update_append
          py_setitem_def[of ng])
  qed
qed

lemma self_at_append:
  assumes "\<forall>a\<in>set self_rows. a < length s" and "rows_at s self_rows = grid g"
  shows "self_at g (s @ t) self_rows = g"
  using assms by (simp add: self_at_def rows_at_append)

lemma apply_rules_cols_obj_refines:
  assumes valid: "\<forall>a\<in>set self_rows. a < length s" and view: "rows_at s self_rows = grid g"
  shows "apply_rules_cols_obj g self_rows [length s..<length s + length ng] row cols (s @ ng) =
         (case apply_rules_cols g row cols ng of
            Inl e \<Rightarrow> Inl e
          | Inr ng' \<Rightarrow> Inr (s @ ng'))"
proof (induction cols arbitrary: ng)
  case Nil
  show ?case by simp
next
  case (Cons col cols)
  note self = self_at_append[OF valid view]
  show ?case
  proof (cases "count_neighbors g row col")
    case (Inl e)
    then show ?thesis by (simp add: self)
  next
    case neighbors: (Inr k)
    show ?thesis
    proof (cases "py_getitem (grid g) row")
      case (Inl e)
      then show ?thesis by (simp add: self neighbors)
    next
      case rw: (Inr rw)
      show ?thesis
      proof (cases "py_getitem rw col")
        case (Inl e)
        then show ?thesis by (simp add: self neighbors rw)
      next
        case cell: (Inr v)
        have step: "apply_rules_cols_obj g self_rows [length s..<length s + length ng] row
                      (col # cols) (s @ ng) =
              (case py_setitem2 ng row col (next_cell v k) of
                 Inl e \<Rightarrow> Inl e
               | Inr ng1 \<Rightarrow>
                   apply_rules_cols_obj g self_rows [length s..<length s + length ng] row cols
                     (s @ ng1))"
          by (simp add: self neighbors rw cell store_write)
        show ?thesis
        proof (cases "py_setitem2 ng row col (next_cell v k)")
          case (Inl e)
          then show ?thesis
            unfolding step by (simp add: neighbors rw cell)
        next
          case (Inr ng1)
          then have "length ng1 = length ng" by (rule py_setitem2_length)
          then show ?thesis
            unfolding step using Cons.IH[of ng1] by (simp add: neighbors rw cell Inr)
        qed
      qed
    qed
  qed
qed

lemma apply_rules_cols_length:
  "apply_rules_cols g row cols ng = Inr ng' \<Longrightarrow> length ng' = length ng"
proof (induction cols arbitrary: ng)
  case Nil
  then show ?case by simp
next
  case (Cons col cols)
  then show ?case
    by (auto split: sum.splits dest: py_setitem2_length)
qed

lemma apply_rules_rows_obj_refines:
  assumes valid: "\<forall>a\<in>set self_rows. a < length s" and view: "rows_at s self_rows = grid g"
  shows "apply_rules_rows_obj g self_rows [length s..<length s + length ng] rows (s @ ng) =
         (case apply_rules_rows g rows ng of
            Inl e \<Rightarrow> Inl e
          | Inr ng' \<Rightarrow> Inr (s @ ng'))"
proof (induction rows arbitrary: ng)
  case Nil
  show ?case by simp
next
  case (Cons row rows)
  show ?case
  proof (cases "apply_rules_cols g row (py_range (grid_size g)) ng")
    case (Inl e)
    then show ?thesis
      by (simp add: apply_rules_cols_obj_refines[OF valid view])
  next
    case (Inr ng1)
    then have "length ng1 = length ng" by (rule apply_rules_cols_length)
    then show ?thesis
      using Cons.IH[of ng1] by (simp add: apply_rules_cols_obj_refines[OF valid view] Inr)
  qed
qed

lemma apply_rules_obj_refines:
  assumes valid: "\<forall>a\<in>set self_rows. a < length s" and view: "rows_at s self_rows = grid g"
  shows "apply_rules_obj g self_rows s =
         (case apply_rules g of
            Inl e \<Rightarrow> Inl e
          | Inr ng \<Rightarrow> Inr ([length s..<length s + nat (grid_size g)], s @ ng))"
  using apply_rules_rows_obj_refines[OF valid view,
      of "map (\<lambda>_. map (\<lambda>_. 0) (py_range (grid_size g))) (py_range (grid_size g))"
         "py_range (grid_size g)"]
  by (simp add: apply_rules_obj_def alloc_rows_def apply_rules_def length_py_range
      split: sum.splits)

lemma apply_rules_obj_fresh:
  assumes self: "denotes s self_rows (grid g)" and run: "apply_rules g = Inr ng"
    and len: "length ng = nat (grid_size g)"
  shows "\<exists>new_grid s'. apply_rules_obj g self_rows s = Inr (new_grid, s') \<and>
           denotes s' new_grid ng \<and> distinct new_grid \<and>
           (\<forall>a\<in>set new_grid. length s \<le> a) \<and>
           take (length s) s' = s \<and> denotes s' self_rows (grid g)"
proof -
  let ?new = "[length s..<length s + nat (grid_size g)]"
  from self have valid: "\<forall>a\<in>set self_rows. a < length s" and view: "rows_at s self_rows = grid g"
    by (simp_all add: denotes_def)
  have "apply_rules_obj g self_rows s = Inr (?new, s @ ng)"
    by (simp add: apply_rules_obj_refines[OF valid view] run)
  moreover have "denotes (s @ ng) ?new ng"
    using rows_at_fresh[of s ng] by (simp add: denotes_def len)
  moreover have "distinct ?new" "\<forall>a\<in>set ?new. length s \<le> a" "take (length s) (s @ ng) = s"
    by simp_all
  moreover have "denotes (s @ ng) self_rows (grid g)"
    using valid view by (auto simp: denotes_def rows_at_append)
  ultimately show ?thesis by blast
qed

lemma denotes_column3: "denotes (grid column3) [0, 1, 2] (grid column3)"
  by (simp add: denotes_def rows_at_def column3_def)

text \<open>
  C1. On a game whose grid is \<open>grid_size \<times> grid_size\<close> with cells \<open>0\<close> or \<open>1\<close> and
  \<open>grid_size \<ge> 1\<close>, \<^verbatim>\<open>apply_rules\<close> returns a grid of the same shape with cells \<open>0\<close> or
  \<open>1\<close>. The cell it stores at \<open>(i, j)\<close> is determined by the cell of the game's grid at
  \<open>(i, j)\<close> and the number \<open>k\<close> of the eight offset pairs \<open>(dr, dc)\<close> for which the cell
  of the game's grid at row \<open>(i + dr) mod grid_size\<close> and column \<open>(j + dc) mod grid_size\<close>
  is alive, which is what \<^verbatim>\<open>count_neighbors\<close> returns there: a live cell with \<open>k < 2\<close> or
  \<open>k > 3\<close> becomes \<open>0\<close>, a dead cell with \<open>k = 3\<close> becomes \<open>1\<close>, every other cell keeps
  its value. On row objects: whatever store and row references hold the game's grid,
  \<^verbatim>\<open>apply_rules\<close> returns references to distinct rows that did not exist before the
  call and that hold the grid above, and it leaves every object that existed before the
  call, the rows of the game's grid among them, as it was.
\<close>

theorem apply_rules_transition:
  assumes "1 \<le> grid_size g" and "grid_inv g"
  shows "\<exists>ng. apply_rules g = Inr ng \<and> square (nat (grid_size g)) ng \<and> binary ng \<and>
           (\<forall>i<nat (grid_size g). \<forall>j<nat (grid_size g).
              \<exists>k. count_neighbors g (int i) (int j) = Inr k \<and>
                k = int (card {d \<in> {(-1, -1), (-1, 0), (-1, 1), (0, -1), (0, 1), (1, -1), (1, 0), (1, 1)}.
                      grid g ! nat ((int i + fst d) mod grid_size g)
                             ! nat ((int j + snd d) mod grid_size g) = 1}) \<and>
                (grid g ! i ! j = 1 \<and> (k < 2 \<or> 3 < k) \<longrightarrow> ng ! i ! j = 0) \<and>
                (grid g ! i ! j = 0 \<and> k = 3 \<longrightarrow> ng ! i ! j = 1) \<and>
                (\<not> (grid g ! i ! j = 1 \<and> (k < 2 \<or> 3 < k)) \<and> \<not> (grid g ! i ! j = 0 \<and> k = 3)
                   \<longrightarrow> ng ! i ! j = grid g ! i ! j)) \<and>
           (\<forall>s self_rows. denotes s self_rows (grid g) \<longrightarrow>
              (\<exists>new_grid s'. apply_rules_obj g self_rows s = Inr (new_grid, s') \<and>
                 denotes s' new_grid ng \<and> distinct new_grid \<and>
                 (\<forall>a\<in>set new_grid. length s \<le> a) \<and>
                 take (length s) s' = s \<and> denotes s' self_rows (grid g)))"
proof -
  from assms have sq: "square (nat (grid_size g)) (grid g)" and bin: "binary (grid g)"
    and pos: "0 < grid_size g"
    by (simp_all add: grid_inv_def)
  from apply_rules_inv[OF assms(2)] obtain ng where
    run: "apply_rules g = Inr ng" and sq': "square (nat (grid_size g)) ng" and bin': "binary ng"
    by blast
  from apply_rules_nth[OF sq pos] run have
    nth: "\<forall>i<nat (grid_size g). \<forall>j<nat (grid_size g). ng ! i ! j = new_cell g i j"
    by simp
  have cells: "\<exists>k. count_neighbors g (int i) (int j) = Inr k \<and>
          k = int (card {d \<in> {(-1, -1), (-1, 0), (-1, 1), (0, -1), (0, 1), (1, -1), (1, 0), (1, 1)}.
                grid g ! nat ((int i + fst d) mod grid_size g)
                       ! nat ((int j + snd d) mod grid_size g) = 1}) \<and>
          (grid g ! i ! j = 1 \<and> (k < 2 \<or> 3 < k) \<longrightarrow> ng ! i ! j = 0) \<and>
          (grid g ! i ! j = 0 \<and> k = 3 \<longrightarrow> ng ! i ! j = 1) \<and>
          (\<not> (grid g ! i ! j = 1 \<and> (k < 2 \<or> 3 < k)) \<and> \<not> (grid g ! i ! j = 0 \<and> k = 3)
             \<longrightarrow> ng ! i ! j = grid g ! i ! j)"
    if "i < nat (grid_size g)" "j < nat (grid_size g)" for i j
  proof -
    let ?k = "neighbor_sum g (int i) (int j)"
    have count: "count_neighbors g (int i) (int j) = Inr ?k"
      by (rule count_neighbors_sum[OF sq pos])
    have card: "?k = int (card {d \<in> {(-1, -1), (-1, 0), (-1, 1), (0, -1), (0, 1), (1, -1), (1, 0), (1, 1)}.
                grid g ! nat ((int i + fst d) mod grid_size g)
                       ! nat ((int j + snd d) mod grid_size g) = 1})"
      using neighbor_sum_card(1)[OF sq bin pos, of "int i" "int j"]
      by (simp add: set_DIRECTIONS torus_cell_def)
    have cell: "ng ! i ! j = next_cell (grid g ! i ! j) ?k"
      using nth that by (simp add: new_cell_def)
    have rule: "(grid g ! i ! j = 1 \<and> (?k < 2 \<or> 3 < ?k) \<longrightarrow> ng ! i ! j = 0) \<and>
          (grid g ! i ! j = 0 \<and> ?k = 3 \<longrightarrow> ng ! i ! j = 1) \<and>
          (\<not> (grid g ! i ! j = 1 \<and> (?k < 2 \<or> 3 < ?k)) \<and> \<not> (grid g ! i ! j = 0 \<and> ?k = 3)
             \<longrightarrow> ng ! i ! j = grid g ! i ! j)"
      by (simp add: cell next_cell_def)
    from count card rule show ?thesis by blast
  qed
  have objects: "\<exists>new_grid s'. apply_rules_obj g self_rows s = Inr (new_grid, s') \<and>
                 denotes s' new_grid ng \<and> distinct new_grid \<and>
                 (\<forall>a\<in>set new_grid. length s \<le> a) \<and>
                 take (length s) s' = s \<and> denotes s' self_rows (grid g)"
    if "denotes s self_rows (grid g)" for s self_rows
    using that run square_length[OF sq'] by (rule apply_rules_obj_fresh)
  from run sq' bin' cells objects show ?thesis by blast
qed

theorem apply_rules_transition_witness:
  "1 \<le> grid_size column3 \<and> grid_inv column3 \<and>
   denotes (grid column3) [0, 1, 2] (grid column3) \<and>
   (\<exists>ng. apply_rules column3 = Inr ng \<and> square (nat (grid_size column3)) ng \<and> binary ng \<and>
      (\<forall>i<nat (grid_size column3). \<forall>j<nat (grid_size column3).
         \<exists>k. count_neighbors column3 (int i) (int j) = Inr k \<and>
           k = int (card {d \<in> {(-1, -1), (-1, 0), (-1, 1), (0, -1), (0, 1), (1, -1), (1, 0), (1, 1)}.
                 grid column3 ! nat ((int i + fst d) mod grid_size column3)
                              ! nat ((int j + snd d) mod grid_size column3) = 1}) \<and>
           (grid column3 ! i ! j = 1 \<and> (k < 2 \<or> 3 < k) \<longrightarrow> ng ! i ! j = 0) \<and>
           (grid column3 ! i ! j = 0 \<and> k = 3 \<longrightarrow> ng ! i ! j = 1) \<and>
           (\<not> (grid column3 ! i ! j = 1 \<and> (k < 2 \<or> 3 < k)) \<and>
            \<not> (grid column3 ! i ! j = 0 \<and> k = 3)
              \<longrightarrow> ng ! i ! j = grid column3 ! i ! j)) \<and>
      (\<exists>new_grid s'. apply_rules_obj column3 [0, 1, 2] (grid column3) = Inr (new_grid, s') \<and>
         denotes s' new_grid ng \<and> distinct new_grid \<and>
         (\<forall>a\<in>set new_grid. length (grid column3) \<le> a) \<and>
         take (length (grid column3)) s' = grid column3 \<and>
         denotes s' [0, 1, 2] (grid column3)))"
proof -
  have size: "1 \<le> grid_size column3"
    by (simp add: column3_def)
  from apply_rules_transition[OF size grid_inv_column3]
  show ?thesis
    using size grid_inv_column3 denotes_column3 by blast
qed

section \<open>Toggling a cell\<close>

lemma handle_grid_click_on_grid:
  assumes sq: "square (nat (grid_size g)) (grid g)" and cs: "cell_size g \<noteq> 0"
    and row: "(y - TOOLBAR_HEIGHT) div cell_size g = row" and col: "x div cell_size g = col"
    and rng: "0 \<le> row" "row < grid_size g" "0 \<le> col" "col < grid_size g"
  shows "handle_grid_click g x y =
         Inr (g\<lparr>grid := (grid g)[nat row := (grid g ! nat row)[nat col := 1 - grid g ! nat row ! nat col]]\<rparr>)"
proof -
  have rn: "nat row < nat (grid_size g)" using rng by simp
  have len: "row < int (length (grid g))"
    using sq rng by (simp add: square_def)
  have rowlen: "col < int (length (grid g ! nat row))"
    using square_nth[OF sq rn] rng by simp
  show ?thesis
    using rng len rowlen cs row col
    by (simp add: handle_grid_click_def py_floordiv_def py_getitem_nat py_setitem2_nat)
qed

lemma handle_grid_click_off_grid:
  assumes cs: "cell_size g \<noteq> 0"
    and row: "(y - TOOLBAR_HEIGHT) div cell_size g = row" and col: "x div cell_size g = col"
    and rng: "\<not> (0 \<le> row \<and> row < grid_size g \<and> 0 \<le> col \<and> col < grid_size g)"
  shows "handle_grid_click g x y = Inr g"
  using assms by (auto simp: handle_grid_click_def py_floordiv_def)

lemma toggle_back:
  assumes "i < length m" "j < length (m ! i)"
  shows "(m[i := (m ! i)[j := 1 - m ! i ! j]])[i := (m[i := (m ! i)[j := 1 - m ! i ! j]] ! i)
            [j := 1 - m[i := (m ! i)[j := 1 - m ! i ! j]] ! i ! j]] = (m :: int list list)"
  using assms by (simp add: list_update_same_conv)

lemma binary_update:
  assumes bin: "binary m" and v: "v = 0 \<or> v = 1" and i: "i < length m"
  shows "binary (m[i := (m ! i)[j := v]])"
  unfolding binary_def
proof (intro ballI)
  fix r w assume r: "r \<in> set (m[i := (m ! i)[j := v]])" and w: "w \<in> set r"
  from r have "r = (m ! i)[j := v] \<or> r \<in> set m"
    using set_update_subset_insert[of m i "(m ! i)[j := v]"] by auto
  then show "w = 0 \<or> w = 1"
  proof
    assume "r = (m ! i)[j := v]"
    with w have "w = v \<or> w \<in> set (m ! i)"
      using set_update_subset_insert[of "m ! i" j v] by auto
    moreover have "m ! i \<in> set m" using i by simp
    ultimately show ?thesis using bin v by (auto simp: binary_def)
  next
    assume "r \<in> set m"
    with w bin show ?thesis by (auto simp: binary_def)
  qed
qed

lemma square_column3: "square (nat (grid_size column3)) (grid column3)"
  using grid_inv_column3 by (simp add: grid_inv_def)

lemma click_column3:
  "cell_size column3 \<noteq> 0" "(75 - TOOLBAR_HEIGHT) div cell_size column3 = 1"
  "45 div cell_size column3 = 1" "200 div cell_size column3 = 6" "grid_size column3 = 3"
  by (simp_all add: column3_def TOOLBAR_HEIGHT_def)

text \<open>
  C7. On a square grid, with a cell size other than \<open>0\<close>, a click that maps to a cell
  \<open>(row, col)\<close> of the grid flips that cell, and the same click on the result gives
  back the game it started from.
\<close>

theorem toggle_twice:
  assumes "square (nat (grid_size g)) (grid g)" and "cell_size g \<noteq> 0"
    and "(y - TOOLBAR_HEIGHT) div cell_size g = row" and "x div cell_size g = col"
    and "0 \<le> row" "row < grid_size g" "0 \<le> col" "col < grid_size g"
  shows "\<exists>g1. handle_grid_click g x y = Inr g1 \<and>
           grid g1 ! nat row ! nat col = 1 - grid g ! nat row ! nat col \<and>
           handle_grid_click g1 x y = Inr g"
proof -
  let ?n = "nat (grid_size g)"
  let ?m1 = "(grid g)[nat row := (grid g ! nat row)[nat col := 1 - grid g ! nat row ! nat col]]"
  let ?g1 = "g\<lparr>grid := ?m1\<rparr>"
  have rn: "nat row < ?n" and cn: "nat col < ?n" using assms(5-8) by simp_all
  have len: "nat row < length (grid g)" "nat col < length (grid g ! nat row)"
    using square_length[OF assms(1)] square_nth[OF assms(1) rn] rn cn by simp_all
  have first: "handle_grid_click g x y = Inr ?g1"
    using assms by (rule handle_grid_click_on_grid)
  have flipped: "grid ?g1 ! nat row ! nat col = 1 - grid g ! nat row ! nat col"
    using len by simp
  have sq1: "square (nat (grid_size ?g1)) (grid ?g1)"
    using square_update[OF assms(1) rn] by simp
  have "handle_grid_click ?g1 x y =
        Inr (?g1\<lparr>grid := (grid ?g1)[nat row := (grid ?g1 ! nat row)
               [nat col := 1 - grid ?g1 ! nat row ! nat col]]\<rparr>)"
    using sq1 by (rule handle_grid_click_on_grid) (use assms in simp_all)
  also have "(grid ?g1)[nat row := (grid ?g1 ! nat row)
               [nat col := 1 - grid ?g1 ! nat row ! nat col]] = grid g"
    using toggle_back[OF len] by simp
  finally have second: "handle_grid_click ?g1 x y = Inr g"
    by simp
  from first flipped second show ?thesis by blast
qed

theorem toggle_twice_witness:
  "square (nat (grid_size column3)) (grid column3) \<and> cell_size column3 \<noteq> 0 \<and>
   (75 - TOOLBAR_HEIGHT) div cell_size column3 = 1 \<and> 45 div cell_size column3 = 1 \<and>
   (1::int) < grid_size column3 \<and>
   (\<exists>g1. handle_grid_click column3 45 75 = Inr g1 \<and>
      grid g1 ! nat 1 ! nat 1 = 1 - grid column3 ! nat 1 ! nat 1 \<and>
      handle_grid_click g1 45 75 = Inr column3)"
proof -
  have rng: "(0::int) \<le> 1" "(1::int) < grid_size column3"
    by (simp_all add: click_column3)
  from toggle_twice[OF square_column3 click_column3(1-3) rng rng]
  show ?thesis
    using square_column3 click_column3 rng by blast
qed

text \<open>
  C10. On a square grid, with a cell size other than \<open>0\<close>, let \<open>(row, col)\<close> be the
  cell a click maps to. When it is on the grid, \<^verbatim>\<open>handle_grid_click\<close> returns the game
  with the cell \<open>(row, col)\<close> replaced by one minus its value, every other cell as it
  was, the grid still square, and every field but the grid (the running flag among
  them) unchanged. When it is off the grid, the game is returned as it is, with no
  error and no wrapping of the indices.
\<close>

theorem handle_grid_click_frame:
  assumes "square (nat (grid_size g)) (grid g)" and "cell_size g \<noteq> 0"
    and "(y - TOOLBAR_HEIGHT) div cell_size g = row" and "x div cell_size g = col"
  shows "(0 \<le> row \<and> row < grid_size g \<and> 0 \<le> col \<and> col < grid_size g \<longrightarrow>
            (\<exists>g'. handle_grid_click g x y = Inr g' \<and>
               grid g' ! nat row ! nat col = 1 - grid g ! nat row ! nat col \<and>
               (\<forall>i<nat (grid_size g). \<forall>j<nat (grid_size g).
                  i \<noteq> nat row \<or> j \<noteq> nat col \<longrightarrow> grid g' ! i ! j = grid g ! i ! j) \<and>
               square (nat (grid_size g)) (grid g') \<and>
               is_running g' = is_running g \<and> g' = g\<lparr>grid := grid g'\<rparr>)) \<and>
         (\<not> (0 \<le> row \<and> row < grid_size g \<and> 0 \<le> col \<and> col < grid_size g) \<longrightarrow>
            handle_grid_click g x y = Inr g)"
proof (intro conjI impI)
  assume rng: "0 \<le> row \<and> row < grid_size g \<and> 0 \<le> col \<and> col < grid_size g"
  let ?n = "nat (grid_size g)"
  let ?m1 = "(grid g)[nat row := (grid g ! nat row)[nat col := 1 - grid g ! nat row ! nat col]]"
  let ?g1 = "g\<lparr>grid := ?m1\<rparr>"
  have rn: "nat row < ?n" and cn: "nat col < ?n" using rng by simp_all
  have click: "handle_grid_click g x y = Inr ?g1"
    using assms rng by (intro handle_grid_click_on_grid) simp_all
  have cells: "?m1 ! i ! j = (if i = nat row \<and> j = nat col then 1 - grid g ! nat row ! nat col
                               else grid g ! i ! j)" if "i < ?n" "j < ?n" for i j
    using nth_update2[OF assms(1) that rn cn] .
  have "grid ?g1 ! nat row ! nat col = 1 - grid g ! nat row ! nat col"
    using cells[OF rn cn] by simp
  moreover have "\<forall>i<?n. \<forall>j<?n. i \<noteq> nat row \<or> j \<noteq> nat col \<longrightarrow> grid ?g1 ! i ! j = grid g ! i ! j"
    using cells by auto
  moreover have "square ?n (grid ?g1)"
    using square_update[OF assms(1) rn] by simp
  moreover have "is_running ?g1 = is_running g" "?g1 = g\<lparr>grid := grid ?g1\<rparr>"
    by simp_all
  ultimately show "\<exists>g'. handle_grid_click g x y = Inr g' \<and>
               grid g' ! nat row ! nat col = 1 - grid g ! nat row ! nat col \<and>
               (\<forall>i<nat (grid_size g). \<forall>j<nat (grid_size g).
                  i \<noteq> nat row \<or> j \<noteq> nat col \<longrightarrow> grid g' ! i ! j = grid g ! i ! j) \<and>
               square (nat (grid_size g)) (grid g') \<and>
               is_running g' = is_running g \<and> g' = g\<lparr>grid := grid g'\<rparr>"
    using click by blast
next
  assume "\<not> (0 \<le> row \<and> row < grid_size g \<and> 0 \<le> col \<and> col < grid_size g)"
  with assms(2-4) show "handle_grid_click g x y = Inr g"
    by (rule handle_grid_click_off_grid)
qed

theorem handle_grid_click_frame_witness:
  "square (nat (grid_size column3)) (grid column3) \<and> cell_size column3 \<noteq> 0 \<and>
   (75 - TOOLBAR_HEIGHT) div cell_size column3 = 1 \<and> 45 div cell_size column3 = 1 \<and>
   200 div cell_size column3 = 6 \<and> (1::int) < grid_size column3 \<and> \<not> (6::int) < grid_size column3 \<and>
   (\<exists>g'. handle_grid_click column3 45 75 = Inr g' \<and>
      grid g' ! nat 1 ! nat 1 = 1 - grid column3 ! nat 1 ! nat 1 \<and>
      (\<forall>i<nat (grid_size column3). \<forall>j<nat (grid_size column3).
         i \<noteq> nat 1 \<or> j \<noteq> nat 1 \<longrightarrow> grid g' ! i ! j = grid column3 ! i ! j) \<and>
      square (nat (grid_size column3)) (grid g') \<and>
      is_running g' = is_running column3 \<and> g' = column3\<lparr>grid := grid g'\<rparr>) \<and>
   handle_grid_click column3 200 75 = Inr column3"
proof -
  have rng: "(0::int) \<le> 1" "(1::int) < grid_size column3" "\<not> (6::int) < grid_size column3"
    by (simp_all add: click_column3)
  note on = handle_grid_click_frame[OF square_column3 click_column3(1-3)]
  note off = handle_grid_click_frame[OF square_column3 click_column3(1,2,4)]
  from on rng have
    "\<exists>g'. handle_grid_click column3 45 75 = Inr g' \<and>
      grid g' ! nat 1 ! nat 1 = 1 - grid column3 ! nat 1 ! nat 1 \<and>
      (\<forall>i<nat (grid_size column3). \<forall>j<nat (grid_size column3).
         i \<noteq> nat 1 \<or> j \<noteq> nat 1 \<longrightarrow> grid g' ! i ! j = grid column3 ! i ! j) \<and>
      square (nat (grid_size column3)) (grid g') \<and>
      is_running g' = is_running column3 \<and> g' = column3\<lparr>grid := grid g'\<rparr>"
    by blast
  moreover from off rng have "handle_grid_click column3 200 75 = Inr column3"
    by blast
  ultimately show ?thesis
    using square_column3 click_column3 rng by blast
qed

section \<open>Preservation of the grid invariant\<close>

lemma grid_inv_clear:
  "square (nat n) (map (\<lambda>_. map (\<lambda>_. 0) (py_range n)) (py_range n)) \<and>
   binary (map (\<lambda>_. map (\<lambda>_. 0) (py_range n)) (py_range n))"
  by (auto simp: square_def binary_def length_py_range)

lemma init_result:
  "init set_mode gs cs =
     (if set_mode (gs * cs) (gs * cs + TOOLBAR_HEIGHT)
      then Inr \<lparr>grid_size = gs, cell_size = cs, width = gs * cs,
                height = gs * cs + TOOLBAR_HEIGHT,
                grid = map (\<lambda>_. map (\<lambda>_. 0) (py_range gs)) (py_range gs),
                window_alive = True, is_running = False\<rparr>
      else Inl PygameError)"
  by (simp add: init_def Let_def initialize_grid_def make_clear_grid_def)

lemma handle_grid_click_inv:
  assumes inv: "grid_inv g" and cs: "cell_size g \<noteq> 0"
  shows "\<exists>g'. handle_grid_click g x y = Inr g' \<and> grid_inv g' \<and> grid_size g' = grid_size g"
proof -
  let ?row = "(y - TOOLBAR_HEIGHT) div cell_size g"
  let ?col = "x div cell_size g"
  from inv have sq: "square (nat (grid_size g)) (grid g)" and bin: "binary (grid g)"
    by (simp_all add: grid_inv_def)
  show ?thesis
  proof (cases "0 \<le> ?row \<and> ?row < grid_size g \<and> 0 \<le> ?col \<and> ?col < grid_size g")
    case True
    let ?v = "1 - grid g ! nat ?row ! nat ?col"
    let ?m1 = "(grid g)[nat ?row := (grid g ! nat ?row)[nat ?col := ?v]]"
    have rn: "nat ?row < nat (grid_size g)" and cn: "nat ?col < nat (grid_size g)"
      using True by simp_all
    have click: "handle_grid_click g x y = Inr (g\<lparr>grid := ?m1\<rparr>)"
      using sq cs True by (intro handle_grid_click_on_grid) simp_all
    have "grid g ! nat ?row ! nat ?col = 0 \<or> grid g ! nat ?row ! nat ?col = 1"
      using sq bin rn cn by (rule grid_cell_binary)
    then have v: "?v = 0 \<or> ?v = 1" by auto
    have "binary ?m1"
      using bin v by (rule binary_update) (use rn square_length[OF sq] in simp)
    moreover have "square (nat (grid_size g)) ?m1"
      using sq rn by (rule square_update)
    ultimately have "grid_inv (g\<lparr>grid := ?m1\<rparr>)"
      by (simp add: grid_inv_def)
    with click show ?thesis by simp
  next
    case False
    with cs have "handle_grid_click g x y = Inr g"
      by (intro handle_grid_click_off_grid) simp_all
    with inv show ?thesis by simp
  qed
qed

lemma update_grid_inv:
  assumes inv: "grid_inv g"
  shows "\<exists>g'. update_grid g = Inr g' \<and> grid_inv g' \<and> grid_size g' = grid_size g"
proof -
  from apply_rules_inv[OF inv] obtain ng where
    "apply_rules g = Inr ng" "square (nat (grid_size g)) ng" "binary ng"
    by blast
  then show ?thesis
    by (simp add: update_grid_def grid_inv_def)
qed

text \<open>
  C6. The grid of a constructed game is \<open>grid_size \<times> grid_size\<close> with every cell \<open>0\<close> or
  \<open>1\<close>, and start, pause, end, the generation advance (\<^verbatim>\<open>update_grid\<close>, and the frame
  step that calls it) and a click on the grid all return a game of the same
  \<open>grid_size\<close> with that property, without raising. For a \<open>grid_size\<close> that is not
  positive the grid is empty.
\<close>

theorem grid_inv_preserved:
  "(init set_mode gs cs = Inr g0 \<longrightarrow> grid_inv g0 \<and> grid_size g0 = gs) \<and>
   (grid_inv g \<longrightarrow>
      grid_inv (start_simulation g) \<and> grid_inv (pause_simulation g) \<and>
      grid_inv (end_simulation g) \<and> grid_size (end_simulation g) = grid_size g \<and>
      (\<exists>g'. update_grid g = Inr g' \<and> grid_inv g' \<and> grid_size g' = grid_size g) \<and>
      (\<exists>g'. run_tick g = Inr g' \<and> grid_inv g' \<and> grid_size g' = grid_size g) \<and>
      (cell_size g \<noteq> 0 \<longrightarrow>
         (\<exists>g'. handle_grid_click g x y = Inr g' \<and> grid_inv g' \<and> grid_size g' = grid_size g)))"
proof (intro conjI impI)
  assume "init set_mode gs cs = Inr g0"
  then have g0: "g0 = \<lparr>grid_size = gs, cell_size = cs, width = gs * cs,
                height = gs * cs + TOOLBAR_HEIGHT,
                grid = map (\<lambda>_. map (\<lambda>_. 0) (py_range gs)) (py_range gs),
                window_alive = True, is_running = False\<rparr>"
    by (simp add: init_result split: if_splits)
  show "grid_inv g0" "grid_size g0 = gs"
    using grid_inv_clear[of gs] by (simp_all add: g0 grid_inv_def)
next
  assume inv: "grid_inv g"
  show "grid_inv (start_simulation g)" "grid_inv (pause_simulation g)"
    using inv by (simp_all add: grid_inv_def start_simulation_def pause_simulation_def)
  show "grid_inv (end_simulation g)" "grid_size (end_simulation g) = grid_size g"
    using grid_inv_clear[of "grid_size g"]
    by (simp_all add: grid_inv_def end_simulation_def make_clear_grid_def)
  show upd: "\<exists>g'. update_grid g = Inr g' \<and> grid_inv g' \<and> grid_size g' = grid_size g"
    using inv by (rule update_grid_inv)
  show "\<exists>g'. run_tick g = Inr g' \<and> grid_inv g' \<and> grid_size g' = grid_size g"
    using upd inv by (simp add: run_tick_def)
next
  assume "grid_inv g" "cell_size g \<noteq> 0"
  then show "\<exists>g'. handle_grid_click g x y = Inr g' \<and> grid_inv g' \<and> grid_size g' = grid_size g"
    by (rule handle_grid_click_inv)
qed

theorem grid_inv_preserved_witness:
  "grid_inv column3 \<and> cell_size column3 \<noteq> 0 \<and>
   init positive_display 3 30 =
     Inr \<lparr>grid_size = 3, cell_size = 30, width = 90, height = 120,
          grid = [[0, 0, 0], [0, 0, 0], [0, 0, 0]], window_alive = True, is_running = False\<rparr> \<and>
   grid_inv \<lparr>grid_size = 3, cell_size = 30, width = 90, height = 120,
          grid = [[0, 0, 0], [0, 0, 0], [0, 0, 0]], window_alive = True, is_running = False\<rparr> \<and>
   grid_inv (start_simulation column3) \<and> grid_inv (pause_simulation column3) \<and>
   grid_inv (end_simulation column3) \<and>
   (\<exists>g'. update_grid column3 = Inr g' \<and> grid_inv g' \<and> grid_size g' = grid_size column3) \<and>
   (\<exists>g'. run_tick column3 = Inr g' \<and> grid_inv g' \<and> grid_size g' = grid_size column3) \<and>
   (\<exists>g'. handle_grid_click column3 45 75 = Inr g' \<and> grid_inv g' \<and>
      grid_size g' = grid_size column3)"
proof -
  let ?g0 = "\<lparr>grid_size = 3, cell_size = 30, width = 90, height = 120,
          grid = [[0, 0, 0], [0, 0, 0], [0, 0, 0]], window_alive = True, is_running = False\<rparr>"
  have built: "init positive_display 3 30 = Inr ?g0"
    by (simp add: init_result positive_display_def TOOLBAR_HEIGHT_def py_range_def
        upt_conv_Cons)
  from grid_inv_preserved[of positive_display 3 30 ?g0 column3 45 75]
  show ?thesis
    using built grid_inv_column3 click_column3(1) by blast
qed

section \<open>The frame step\<close>

lemma apply_rules_returns:
  assumes sq: "square (nat (grid_size g)) (grid g)"
  shows "\<exists>ng. apply_rules g = Inr ng"
proof (cases "0 < grid_size g")
  case True
  from apply_rules_nth[OF sq True] show ?thesis by blast
next
  case False
  then show ?thesis by (simp add: apply_rules_empty)
qed

text \<open>
  C3. The frame step on a stopped game returns the game as it is, whatever its grid. On
  a running game with a square grid it returns the game with its grid replaced by the
  grid that \<^verbatim>\<open>apply_rules\<close> returns on the current game.
\<close>

theorem run_tick_spec:
  "(\<not> is_running g \<longrightarrow> run_tick g = Inr g) \<and>
   (is_running g \<and> square (nat (grid_size g)) (grid g) \<longrightarrow>
      (\<exists>ng. apply_rules g = Inr ng \<and> run_tick g = Inr (g\<lparr>grid := ng\<rparr>)))"
proof (intro conjI impI)
  assume "\<not> is_running g"
  then show "run_tick g = Inr g" by (simp add: run_tick_def)
next
  assume run: "is_running g \<and> square (nat (grid_size g)) (grid g)"
  then obtain ng where "apply_rules g = Inr ng"
    using apply_rules_returns by blast
  with run show "\<exists>ng. apply_rules g = Inr ng \<and> run_tick g = Inr (g\<lparr>grid := ng\<rparr>)"
    by (simp add: run_tick_def update_grid_def)
qed

theorem run_tick_spec_witness:
  "\<not> is_running (pause_simulation column3) \<and>
   run_tick (pause_simulation column3) = Inr (pause_simulation column3) \<and>
   is_running column3 \<and> square (nat (grid_size column3)) (grid column3) \<and>
   (\<exists>ng. apply_rules column3 = Inr ng \<and> run_tick column3 = Inr (column3\<lparr>grid := ng\<rparr>))"
proof -
  have stopped: "\<not> is_running (pause_simulation column3)"
    by (simp add: pause_simulation_def)
  have running: "is_running column3"
    by (simp add: column3_def)
  from run_tick_spec[of "pause_simulation column3"] run_tick_spec[of column3]
  show ?thesis
    using stopped running square_column3 by blast
qed

section \<open>Construction\<close>

text \<open>
  C5, as stated, fails: with \<open>grid_size = -1\<close> and \<open>cell_size = -30\<close> the window is
  \<open>30 \<times> 60\<close>, which a window system that opens exactly the windows of positive size
  opens, and the constructor returns a game with an empty grid.
\<close>

theorem init_accepts_nonpositive_size:
  "(-1::int) \<le> 0 \<and>
   init positive_display (-1) (-30) =
     Inr \<lparr>grid_size = -1, cell_size = -30, width = 30, height = 60, grid = [],
          window_alive = True, is_running = False\<rparr>"
  by (simp add: init_result positive_display_def TOOLBAR_HEIGHT_def py_range_def)

text \<open>
  C5, amended. The constructor does not check \<open>grid_size\<close>: whenever the window of
  width \<open>grid_size * cell_size\<close> and height \<open>grid_size * cell_size + 30\<close> opens,
  construction succeeds, with a stopped simulation and a grid of \<open>grid_size\<close> rows of
  \<open>grid_size\<close> dead cells, which is the empty grid when \<open>grid_size \<le> 0\<close>.
\<close>

theorem init_no_size_check:
  "set_mode (gs * cs) (gs * cs + TOOLBAR_HEIGHT) \<Longrightarrow>
   \<exists>g. init set_mode gs cs = Inr g \<and> grid_size g = gs \<and> cell_size g = cs \<and>
       grid g = replicate (nat gs) (replicate (nat gs) 0) \<and>
       (gs \<le> 0 \<longrightarrow> grid g = []) \<and> \<not> is_running g"
  by (simp add: init_result py_range_def map_replicate_const)

theorem init_no_size_check_witness:
  "positive_display (-2 * -15) (-2 * -15 + TOOLBAR_HEIGHT) \<and>
   (\<exists>g. init positive_display (-2) (-15) = Inr g \<and> grid_size g = -2 \<and> cell_size g = -15 \<and>
       grid g = replicate (nat (-2)) (replicate (nat (-2)) 0) \<and>
       ((-2::int) \<le> 0 \<longrightarrow> grid g = []) \<and> \<not> is_running g)"
proof -
  have ok: "positive_display (-2 * -15) (-2 * -15 + TOOLBAR_HEIGHT)"
    by (simp add: positive_display_def TOOLBAR_HEIGHT_def)
  from init_no_size_check[of positive_display "-2" "-15", OF ok] show ?thesis
    using ok by blast
qed

section \<open>The blinker\<close>

lemma square_pattern: "square (nat n) (pattern n P)"
  by (simp add: square_def pattern_def length_py_range)

lemma nth_py_range: "k < nat n \<Longrightarrow> py_range n ! k = int k"
  by (simp add: py_range_def)

lemma pattern_nth:
  "i < nat n \<Longrightarrow> j < nat n \<Longrightarrow> pattern n P ! i ! j = (if P (int i) (int j) then 1 else 0)"
  by (simp add: pattern_def length_py_range nth_py_range)

lemma torus_cell_pattern:
  assumes "0 < grid_size g" "grid g = pattern (grid_size g) P"
  shows "torus_cell g a b = (if P (a mod grid_size g) (b mod grid_size g) then 1 else 0)"
proof -
  let ?n = "grid_size g"
  have "nat (a mod ?n) < nat ?n" "nat (b mod ?n) < nat ?n"
    using assms(1) by simp_all
  then show ?thesis
    using assms(1) by (simp add: torus_cell_def assms(2) pattern_nth)
qed

lemma apply_rules_pattern:
  assumes pos: "0 < grid_size g" and gr: "grid g = pattern (grid_size g) P"
    and cells: "\<And>i j. 0 \<le> i \<Longrightarrow> i < grid_size g \<Longrightarrow> 0 \<le> j \<Longrightarrow> j < grid_size g \<Longrightarrow>
       next_cell (if P i j then 1 else 0) (neighbor_sum g i j) = (if Q i j then 1 else 0)"
  shows "apply_rules g = Inr (pattern (grid_size g) Q)"
proof -
  let ?n = "nat (grid_size g)"
  have sq: "square ?n (grid g)"
    by (simp add: gr square_pattern)
  from apply_rules_nth[OF sq pos] obtain ng where
    run: "apply_rules g = Inr ng" and sq': "square ?n ng"
    and nth: "\<forall>i<?n. \<forall>j<?n. ng ! i ! j = new_cell g i j"
    by blast
  have cell: "ng ! i ! j = pattern (grid_size g) Q ! i ! j" if ij: "i < ?n" "j < ?n" for i j
  proof -
    have "ng ! i ! j = next_cell (if P (int i) (int j) then 1 else 0) (neighbor_sum g (int i) (int j))"
      using nth ij by (simp add: new_cell_def gr pattern_nth)
    also have "\<dots> = (if Q (int i) (int j) then 1 else 0)"
      using ij by (intro cells) simp_all
    finally show ?thesis
      using ij by (simp add: pattern_nth)
  qed
  have "ng = pattern (grid_size g) Q"
  proof (rule nth_equalityI)
    show len: "length ng = length (pattern (grid_size g) Q)"
      using sq' square_pattern[of "grid_size g" Q] by (simp add: square_def)
    fix i assume i: "i < length ng"
    then have i': "i < ?n" using sq' by (simp add: square_def)
    show "ng ! i = pattern (grid_size g) Q ! i"
    proof (rule nth_equalityI)
      show "length (ng ! i) = length (pattern (grid_size g) Q ! i)"
        using square_nth[OF sq' i'] square_nth[OF square_pattern i'] by simp
      fix j assume "j < length (ng ! i)"
      then have "j < ?n" using square_nth[OF sq' i'] by simp
      with i' show "ng ! i ! j = pattern (grid_size g) Q ! i ! j" by (rule cell)
    qed
  qed
  with run show ?thesis by simp
qed

lemma wrap_mod:
  assumes "0 \<le> i" "i < n"
  shows "(i - 1) mod n = (if i = 0 then n - 1 else i - 1)"
    and "(i + 1) mod n = (if i + 1 = n then 0 else i + 1)"
    and "i mod n = (i::int)"
proof -
  have n: "0 < n" using assms by simp
  show "(i - 1) mod n = (if i = 0 then n - 1 else i - 1)"
  proof (cases "i = 0")
    case True
    then show ?thesis using n by (simp add: zmod_minus1)
  next
    case False
    then have "0 \<le> i - 1" "i - 1 < n" using assms by simp_all
    then show ?thesis using False by (simp add: mod_pos_pos_trivial)
  qed
  show "(i + 1) mod n = (if i + 1 = n then 0 else i + 1)"
  proof (cases "i + 1 = n")
    case True
    then show ?thesis by simp
  next
    case False
    then have "0 \<le> i + 1" "i + 1 < n" using assms by simp_all
    then show ?thesis using False by (simp add: mod_pos_pos_trivial)
  qed
  show "i mod n = i"
    using assms by (simp add: mod_pos_pos_trivial)
qed

lemma ind_simps: "ind True = 1" "ind False = 0"
  by (simp_all add: ind_def)

lemma neighbor_sum_pattern:
  assumes gr: "grid g = pattern (grid_size g) P"
    and i: "0 \<le> i" "i < grid_size g" and j: "0 \<le> j" "j < grid_size g"
    and im: "im = (if i = 0 then grid_size g - 1 else i - 1)"
    and ip: "ip = (if i + 1 = grid_size g then 0 else i + 1)"
    and jm: "jm = (if j = 0 then grid_size g - 1 else j - 1)"
    and jp: "jp = (if j + 1 = grid_size g then 0 else j + 1)"
  shows "neighbor_sum g i j =
     ind (P im jm) + ind (P im j) + ind (P im jp) + ind (P i jm) + ind (P i jp) +
     ind (P ip jm) + ind (P ip j) + ind (P ip jp)"
proof -
  have pos: "0 < grid_size g" using i by simp
  have w: "(i - 1) mod grid_size g = im" "(i + 1) mod grid_size g = ip" "i mod grid_size g = i"
    "(j - 1) mod grid_size g = jm" "(j + 1) mod grid_size g = jp" "j mod grid_size g = j"
    using wrap_mod[OF i] wrap_mod[OF j] im ip jm jp by simp_all
  have t: "torus_cell g a b = ind (P (a mod grid_size g) (b mod grid_size g))" for a b
    by (simp add: torus_cell_pattern[OF pos gr] ind_def)
  show ?thesis
    by (simp add: neighbor_sum_def DIRECTIONS_def t w)
qed

lemma line_counts:
  assumes n: "5 \<le> (n::int)" and c: "1 \<le> c" "c + 1 < n" and j: "0 \<le> j" "j < n"
    and jm: "jm = (if j = 0 then n - 1 else j - 1)"
    and jp: "jp = (if j + 1 = n then 0 else j + 1)"
  shows "(jm = c) = (j = c + 1)" and "(jp = c) = (j = c - 1)"
    and "(ind (jm = c - 1 \<or> jm = c \<or> jm = c + 1) + ind (j = c - 1 \<or> j = c \<or> j = c + 1)
          + ind (jp = c - 1 \<or> jp = c \<or> jp = c + 1) = 3) = (j = c)"
    and "j = c \<Longrightarrow>
         ind (jm = c - 1 \<or> jm = c \<or> jm = c + 1) + ind (jp = c - 1 \<or> jp = c \<or> jp = c + 1) = 2"
    and "j = c - 1 \<or> j = c + 1 \<Longrightarrow>
         ind (jm = c - 1 \<or> jm = c \<or> jm = c + 1) + ind (jp = c - 1 \<or> jp = c \<or> jp = c + 1) = 1"
    and "\<not> (j = c - 1 \<or> j = c \<or> j = c + 1) \<Longrightarrow>
         ind (jm = c - 1 \<or> jm = c \<or> jm = c + 1) + ind (jp = c - 1 \<or> jp = c \<or> jp = c + 1) \<le> 1"
proof -
  have m: "(jm = c - 1) = (j = c)" "(jm = c) = (j = c + 1)"
    "(jm = c + 1) = (j = c + 2 \<or> (j = 0 \<and> c + 2 = n))"
    using n c j by (auto simp: jm)
  have p: "(jp = c + 1) = (j = c)" "(jp = c) = (j = c - 1)"
    "(jp = c - 1) = (j = c - 2 \<or> (j + 1 = n \<and> c = 1))"
    using n c j by (auto simp: jp)
  show "(jm = c) = (j = c + 1)" "(jp = c) = (j = c - 1)"
    by (rule m p)+
  show "(ind (jm = c - 1 \<or> jm = c \<or> jm = c + 1) + ind (j = c - 1 \<or> j = c \<or> j = c + 1)
          + ind (jp = c - 1 \<or> jp = c \<or> jp = c + 1) = 3) = (j = c)"
    unfolding m p using n c j by (auto simp: ind_def)
  show "ind (jm = c - 1 \<or> jm = c \<or> jm = c + 1) + ind (jp = c - 1 \<or> jp = c \<or> jp = c + 1) = 2"
    if "j = c"
    unfolding m p using that by (simp add: ind_def)
  show "ind (jm = c - 1 \<or> jm = c \<or> jm = c + 1) + ind (jp = c - 1 \<or> jp = c \<or> jp = c + 1) = 1"
    if "j = c - 1 \<or> j = c + 1"
    unfolding m p using that n c j by (auto simp: ind_def)
  show "ind (jm = c - 1 \<or> jm = c \<or> jm = c + 1) + ind (jp = c - 1 \<or> jp = c \<or> jp = c + 1) \<le> 1"
    if "\<not> (j = c - 1 \<or> j = c \<or> j = c + 1)"
    unfolding m p using that n c j by (auto simp: ind_def)
qed

lemma next_cell_dead: "next_cell 0 k = ind (k = 3)"
  by (simp add: next_cell_def ind_def)

lemma line_step:
  assumes n: "5 \<le> (n::int)" and r: "1 \<le> r" "r + 1 < n" and c: "1 \<le> c" "c + 1 < n"
    and i: "0 \<le> i" "i < n" and j: "0 \<le> j" "j < n"
    and im: "im = (if i = 0 then n - 1 else i - 1)"
    and ip: "ip = (if i + 1 = n then 0 else i + 1)"
    and jm: "jm = (if j = 0 then n - 1 else j - 1)"
    and jp: "jp = (if j + 1 = n then 0 else j + 1)"
  shows "next_cell (ind (i = r \<and> (j = c - 1 \<or> j = c \<or> j = c + 1)))
          (ind (im = r \<and> (jm = c - 1 \<or> jm = c \<or> jm = c + 1)) +
           ind (im = r \<and> (j = c - 1 \<or> j = c \<or> j = c + 1)) +
           ind (im = r \<and> (jp = c - 1 \<or> jp = c \<or> jp = c + 1)) +
           ind (i = r \<and> (jm = c - 1 \<or> jm = c \<or> jm = c + 1)) +
           ind (i = r \<and> (jp = c - 1 \<or> jp = c \<or> jp = c + 1)) +
           ind (ip = r \<and> (jm = c - 1 \<or> jm = c \<or> jm = c + 1)) +
           ind (ip = r \<and> (j = c - 1 \<or> j = c \<or> j = c + 1)) +
           ind (ip = r \<and> (jp = c - 1 \<or> jp = c \<or> jp = c + 1)))
         = ind (j = c \<and> (i = r - 1 \<or> i = r \<or> i = r + 1))"
    (is "next_cell ?old ?S = ?new")
proof -
  let ?s2 = "ind (jm = c - 1 \<or> jm = c \<or> jm = c + 1) + ind (jp = c - 1 \<or> jp = c \<or> jp = c + 1)"
  let ?s3 = "ind (jm = c - 1 \<or> jm = c \<or> jm = c + 1) + ind (j = c - 1 \<or> j = c \<or> j = c + 1)
             + ind (jp = c - 1 \<or> jp = c \<or> jp = c + 1)"
  note rows = line_counts(1,2)[OF n r i im ip]
  note three = line_counts(3)[OF n c j jm jp]
  note two = line_counts(4-6)[OF n c j jm jp]
  consider (mid) "i = r" | (below) "i = r + 1" | (above) "i = r - 1"
    | (far) "i \<noteq> r" "i \<noteq> r + 1" "i \<noteq> r - 1"
    by blast
  then show ?thesis
  proof cases
    case mid
    then have S: "?S = ?s2"
      by (simp add: rows ind_simps)
    consider (centre) "j = c" | (tip) "j = c - 1 \<or> j = c + 1"
      | (off) "\<not> (j = c - 1 \<or> j = c \<or> j = c + 1)"
      by blast
    then show ?thesis
    proof cases
      case centre
      then have "?s2 = 2" by (rule two(1))
      with S mid centre show ?thesis
        by (simp add: next_cell_def ind_simps)
    next
      case tip
      then have "?s2 = 1" by (rule two(2))
      moreover from tip c have "j \<noteq> c" by auto
      ultimately show ?thesis
        using S mid tip by (simp add: next_cell_def ind_simps)
    next
      case off
      then have "?s2 \<le> 1" by (rule two(3))
      moreover from off have "j \<noteq> c" by auto
      ultimately show ?thesis
        using S mid off by (simp add: next_cell_def ind_simps)
    qed
  next
    case below
    then have S: "?S = ?s3"
      by (simp add: rows ind_simps)
    from below have old: "?old = 0" by (simp add: ind_simps)
    have "next_cell ?old ?S = ind (?s3 = 3)"
      unfolding S old by (rule next_cell_dead)
    also have "\<dots> = ind (j = c)"
      unfolding three ..
    also have "\<dots> = ?new"
      using below by simp
    finally show ?thesis .
  next
    case above
    then have S: "?S = ?s3"
      by (simp add: rows ind_simps)
    from above have old: "?old = 0" by (simp add: ind_simps)
    have "next_cell ?old ?S = ind (?s3 = 3)"
      unfolding S old by (rule next_cell_dead)
    also have "\<dots> = ind (j = c)"
      unfolding three ..
    also have "\<dots> = ?new"
      using above by simp
    finally show ?thesis .
  next
    case far
    then have S: "?S = 0"
      by (simp add: rows ind_simps)
    from far have old: "?old = 0" by (simp add: ind_simps)
    have "next_cell ?old ?S = ind ((0::int) = 3)"
      unfolding S old by (rule next_cell_dead)
    also have "\<dots> = ?new"
      using far by (simp add: ind_simps)
    finally show ?thesis .
  qed
qed

text \<open>
  C8. On a game of side \<open>grid_size \<ge> 5\<close> whose grid is dead except for the horizontal
  line \<open>(r, c - 1), (r, c), (r, c + 1)\<close>, placed so that the line and the rows \<open>r - 1\<close>
  and \<open>r + 1\<close> lie on the grid without wrapping, \<^verbatim>\<open>apply_rules\<close> returns the grid that
  is dead except for the vertical line \<open>(r - 1, c), (r, c), (r + 1, c)\<close>, and
  \<^verbatim>\<open>apply_rules\<close> on the game with that grid returns the horizontal line again.
\<close>

theorem blinker_period_two:
  assumes "5 \<le> grid_size g"
    and "1 \<le> r" "r + 1 < grid_size g" and "1 \<le> c" "c + 1 < grid_size g"
    and "grid g = blinker_h (grid_size g) r c"
  shows "apply_rules g = Inr (blinker_v (grid_size g) r c) \<and>
         apply_rules (g\<lparr>grid := blinker_v (grid_size g) r c\<rparr>) = Inr (blinker_h (grid_size g) r c)"
proof
  let ?n = "grid_size g"
  let ?H = "\<lambda>i j. i = r \<and> (j = c - 1 \<or> j = c \<or> j = c + 1)"
  let ?V = "\<lambda>i j. j = c \<and> (i = r - 1 \<or> i = r \<or> i = r + 1)"
  have pos: "0 < ?n" using assms(1) by simp
  have h: "grid g = pattern ?n ?H"
    using assms(6) by (simp add: blinker_h_def)
  have "apply_rules g = Inr (pattern ?n ?V)"
    using pos h
  proof (rule apply_rules_pattern)
    fix i j assume i: "0 \<le> i" "i < ?n" and j: "0 \<le> j" "j < ?n"
    define im ip jm jp where
      "im = (if i = 0 then ?n - 1 else i - 1)" and "ip = (if i + 1 = ?n then 0 else i + 1)" and
      "jm = (if j = 0 then ?n - 1 else j - 1)" and "jp = (if j + 1 = ?n then 0 else j + 1)"
    note w = im_def ip_def jm_def jp_def
    have "next_cell (ind (?H i j)) (neighbor_sum g i j) = ind (?V i j)"
      unfolding neighbor_sum_pattern[OF h i j w]
      by (rule line_step[OF assms(1-5) i j w])
    then show "next_cell (if ?H i j then 1 else 0) (neighbor_sum g i j) = (if ?V i j then 1 else 0)"
      by (simp only: ind_def)
  qed
  then show "apply_rules g = Inr (blinker_v ?n r c)"
    by (simp add: blinker_v_def)
next
  let ?n = "grid_size g"
  let ?H = "\<lambda>i j. i = r \<and> (j = c - 1 \<or> j = c \<or> j = c + 1)"
  let ?V = "\<lambda>i j. j = c \<and> (i = r - 1 \<or> i = r \<or> i = r + 1)"
  let ?g = "g\<lparr>grid := blinker_v ?n r c\<rparr>"
  have pos: "0 < grid_size ?g" using assms(1) by simp
  have v: "grid ?g = pattern (grid_size ?g) ?V"
    by (simp add: blinker_v_def)
  have "apply_rules ?g = Inr (pattern (grid_size ?g) ?H)"
    using pos v
  proof (rule apply_rules_pattern)
    fix i j assume i: "0 \<le> i" "i < grid_size ?g" and j: "0 \<le> j" "j < grid_size ?g"
    define im ip jm jp where
      "im = (if i = 0 then ?n - 1 else i - 1)" and "ip = (if i + 1 = ?n then 0 else i + 1)" and
      "jm = (if j = 0 then ?n - 1 else j - 1)" and "jp = (if j + 1 = ?n then 0 else j + 1)"
    note w = im_def ip_def jm_def jp_def
    have i': "0 \<le> i" "i < ?n" and j': "0 \<le> j" "j < ?n"
      using i j by simp_all
    have sum: "neighbor_sum ?g i j =
        ind (?V im jm) + ind (?V im j) + ind (?V im jp) + ind (?V i jm) + ind (?V i jp) +
        ind (?V ip jm) + ind (?V ip j) + ind (?V ip jp)"
      by (rule neighbor_sum_pattern[OF v i j]) (simp_all add: w)
    also have "\<dots> =
        ind (?V im jm) + ind (?V i jm) + ind (?V ip jm) + ind (?V im j) + ind (?V ip j) +
        ind (?V im jp) + ind (?V i jp) + ind (?V ip jp)"
      by (simp only: ac_simps)
    finally have "next_cell (ind (?V i j)) (neighbor_sum ?g i j) = ind (?H i j)"
      using line_step[OF assms(1,4,5,2,3) j' i' jm_def jp_def im_def ip_def]
      by (simp only:)
    then show "next_cell (if ?V i j then 1 else 0) (neighbor_sum ?g i j) = (if ?H i j then 1 else 0)"
      by (simp only: ind_def)
  qed
  then show "apply_rules ?g = Inr (blinker_h ?n r c)"
    by (simp add: blinker_h_def)
qed

lemma blinker5_grids:
  "blinker_h 5 2 2 = [[0, 0, 0, 0, 0], [0, 0, 0, 0, 0], [0, 1, 1, 1, 0],
                      [0, 0, 0, 0, 0], [0, 0, 0, 0, 0]]"
  "blinker_v 5 2 2 = [[0, 0, 0, 0, 0], [0, 0, 1, 0, 0], [0, 0, 1, 0, 0],
                      [0, 0, 1, 0, 0], [0, 0, 0, 0, 0]]"
  by code_simp+

theorem blinker_period_two_witness:
  "5 \<le> grid_size blinker5 \<and> grid blinker5 = blinker_h (grid_size blinker5) 2 2 \<and>
   apply_rules blinker5 =
     Inr [[0, 0, 0, 0, 0], [0, 0, 1, 0, 0], [0, 0, 1, 0, 0], [0, 0, 1, 0, 0], [0, 0, 0, 0, 0]] \<and>
   apply_rules (blinker5\<lparr>grid :=
       [[0, 0, 0, 0, 0], [0, 0, 1, 0, 0], [0, 0, 1, 0, 0], [0, 0, 1, 0, 0], [0, 0, 0, 0, 0]]\<rparr>) =
     Inr [[0, 0, 0, 0, 0], [0, 0, 0, 0, 0], [0, 1, 1, 1, 0], [0, 0, 0, 0, 0], [0, 0, 0, 0, 0]]"
proof -
  have size: "grid_size blinker5 = 5"
    by (simp add: blinker5_def)
  have line: "grid blinker5 = blinker_h (grid_size blinker5) 2 2"
    by (simp add: size blinker5_grids) (simp add: blinker5_def)
  have "5 \<le> grid_size blinker5" "(1::int) \<le> 2" "2 + 1 < grid_size blinker5"
    by (simp_all add: size)
  from blinker_period_two[OF this(1) this(2,3) this(2,3) line]
  show ?thesis
    using line by (simp add: size blinker5_grids)
qed

section \<open>Reset\<close>

text \<open>
  C4. From every game, running or not and whatever its grid holds, \<^verbatim>\<open>end_simulation\<close>
  leaves the simulation stopped and the grid a matrix of \<open>grid_size\<close> rows of
  \<open>grid_size\<close> cells that are all \<open>0\<close>; the grid size itself is untouched.
\<close>

theorem end_simulation_resets:
  "is_running (end_simulation g) = False
   \<and> grid (end_simulation g) = replicate (nat (grid_size g)) (replicate (nat (grid_size g)) 0)
   \<and> grid_size (end_simulation g) = grid_size g"
  by (simp add: end_simulation_def make_clear_grid_def py_range_def map_replicate_const)

end
